theory Spec2Isabelle
  imports Complex_Main "HOL-Library.Sublist"
begin

section \<open>Python values and exceptions\<close>

text \<open>
  The adapters work on the objects that the host deserialises from JSON: \<open>None\<close>, booleans,
  numbers, strings, lists and dictionaries with string keys. A dictionary is an association
  list in insertion order, read with \<open>map_of\<close>. A Python \<open>str\<close> is a list of characters.
\<close>

datatype json =
    JNull
  | JBool bool
  | JInt int
  | JFloat real
  | JStr string
  | JList "json list"
  | JDict "(string \<times> json) list"

text \<open>
  The exceptions that the two modules can raise. \<open>HTTPErrorException c t\<close> is the
  \<open>Exception(f"HTTP Error {c}: {t}")\<close> of the Anthropic module, \<open>PlainException m\<close> is
  \<open>Exception(m)\<close>, \<open>HTTPError c\<close> is what \<open>raise_for_status\<close> raises and
  \<open>RequestsJSONDecodeError\<close> is what \<open>response.json()\<close> raises.
\<close>

datatype exn =
    KeyError json
  | TypeError
  | AttributeError
  | IndexError
  | ValueError string
  | UnicodeDecodeError
  | RequestException string
  | HTTPError int
  | RequestsJSONDecodeError
  | HTTPErrorException int string
  | PlainException string

text \<open>Sequencing of computations that may raise.\<close>

definition ebind :: "exn + 'a \<Rightarrow> ('a \<Rightarrow> exn + 'b) \<Rightarrow> exn + 'b" where
  "ebind m f = (case m of Inl e \<Rightarrow> Inl e | Inr x \<Rightarrow> f x)"

text \<open>\<open>obj[key]\<close> for a string key.\<close>

fun subscript :: "json \<Rightarrow> string \<Rightarrow> exn + json" where
  "subscript (JDict kvs) k =
     (case map_of kvs k of None \<Rightarrow> Inl (KeyError (JStr k)) | Some v \<Rightarrow> Inr v)"
| "subscript _ k = Inl TypeError"

text \<open>\<open>obj.get(key, default)\<close>: only dictionaries have the method.\<close>

fun py_get :: "json \<Rightarrow> string \<Rightarrow> json \<Rightarrow> exn + json" where
  "py_get (JDict kvs) k d = Inr (case map_of kvs k of None \<Rightarrow> d | Some v \<Rightarrow> v)"
| "py_get _ k d = Inl AttributeError"

text \<open>Truth value of an object in a condition.\<close>

fun truthy :: "json \<Rightarrow> bool" where
  "truthy JNull = False"
| "truthy (JBool b) = b"
| "truthy (JInt i) = (i \<noteq> 0)"
| "truthy (JFloat r) = (r \<noteq> 0)"
| "truthy (JStr s) = (s \<noteq> [])"
| "truthy (JList xs) = (xs \<noteq> [])"
| "truthy (JDict kvs) = (kvs \<noteq> [])"

text \<open>
  The elements a \<open>for\<close> loop visits: the items of a list, the characters of a string, the
  keys of a dictionary; anything else is not iterable.
\<close>

fun py_iter :: "json \<Rightarrow> exn + json list" where
  "py_iter (JList xs) = Inr xs"
| "py_iter (JStr s) = Inr (map (\<lambda>c. JStr [c]) s)"
| "py_iter (JDict kvs) = Inr (map (\<lambda>kv. JStr (fst kv)) kvs)"
| "py_iter _ = Inl TypeError"

text \<open>\<open>key in obj\<close> for a string key.\<close>

fun py_contains :: "json \<Rightarrow> string \<Rightarrow> exn + bool" where
  "py_contains (JDict kvs) k = Inr (map_of kvs k \<noteq> None)"
| "py_contains (JList xs) k = Inr (JStr k \<in> set xs)"
| "py_contains (JStr s) k = Inr (sublist k s)"
| "py_contains _ k = Inl TypeError"

text \<open>\<open>obj[0]\<close>.\<close>

fun py_index0 :: "json \<Rightarrow> exn + json" where
  "py_index0 (JList []) = Inl IndexError"
| "py_index0 (JList (x # xs)) = Inr x"
| "py_index0 (JStr []) = Inl IndexError"
| "py_index0 (JStr (c # cs)) = Inr (JStr [c])"
| "py_index0 (JDict kvs) = Inl (KeyError (JInt 0))"
| "py_index0 _ = Inl TypeError"

section \<open>String operations\<close>

text \<open>\<open>s.find(c)\<close> for a one-character pattern: the lowest index, or \<open>-1\<close>.\<close>

fun str_find :: "string \<Rightarrow> char \<Rightarrow> int" where
  "str_find [] c = - 1"
| "str_find (x # xs) c =
     (if x = c then 0 else (let r = str_find xs c in if r < 0 then - 1 else r + 1))"

text \<open>\<open>s[k:]\<close>: a negative start counts from the end and is clamped at the beginning.\<close>

definition slice_from :: "string \<Rightarrow> int \<Rightarrow> string" where
  "slice_from s k = (if k < 0 then drop (nat (int (length s) + k)) s else drop (nat k) s)"

text \<open>\<open>s.split(c)\<close> for a one-character separator.\<close>

fun split_on :: "char \<Rightarrow> string \<Rightarrow> string list" where
  "split_on c [] = [[]]"
| "split_on c (x # xs) =
     (if x = c then [] # split_on c xs
      else (case split_on c xs of [] \<Rightarrow> [[x]] | y # ys \<Rightarrow> (x # y) # ys))"

text \<open>\<open>s.split(c, 1)\<close>: at most one split, at the first separator.\<close>

definition split_once :: "char \<Rightarrow> string \<Rightarrow> string list" where
  "split_once c s =
     (if c \<in> set s then [takeWhile (\<lambda>x. x \<noteq> c) s, tl (dropWhile (\<lambda>x. x \<noteq> c) s)] else [s])"

text \<open>\<open>xs[0]\<close> and \<open>xs[1]\<close> on a list of strings.\<close>

fun index0 :: "string list \<Rightarrow> exn + string" where
  "index0 (x # xs) = Inr x"
| "index0 [] = Inl IndexError"

fun index1 :: "string list \<Rightarrow> exn + string" where
  "index1 (x # y # ys) = Inr y"
| "index1 _ = Inl IndexError"

text \<open>\<open>s.startswith(p)\<close>.\<close>

definition startswith :: "string \<Rightarrow> string \<Rightarrow> bool" where
  "startswith s p = (take (length p) s = p)"

section \<open>Model identifier\<close>

text \<open>\<open>m[m.find(".") + 1 :]\<close>, the expression both modules apply to \<open>body["model"]\<close>.\<close>

definition vendor_model_id :: "string \<Rightarrow> string" where
  "vendor_model_id m = slice_from m (str_find m CHR ''.'' + 1)"

text \<open>The same expression on an arbitrary object: only a \<open>str\<close> has \<open>find\<close>.\<close>

fun strip_model :: "json \<Rightarrow> exn + json" where
  "strip_model (JStr m) = Inr (JStr (vendor_model_id m))"
| "strip_model _ = Inl AttributeError"

section \<open>HTTP transport\<close>

text \<open>
  The network is outside the repository: a call of \<open>requests.post\<close> either fails with a
  \<open>RequestException\<close> or gives a response. Of a response the modules read the status code,
  the body text, the body parsed as JSON (\<open>None\<close> where \<open>response.json()\<close> raises) and the
  raw lines of \<open>iter_lines()\<close>.
\<close>

record http_response =
  status_code :: int
  resp_text :: string
  json_body :: "json option"
  iter_lines :: "string list"

datatype post_result = Responded http_response | ConnectionFailed string

record http_request =
  req_url :: string
  req_headers :: "(string \<times> string) list"
  req_payload :: json
  req_stream :: bool

type_synonym transport = "http_request \<Rightarrow> post_result"

section \<open>Anthropic module\<close>

definition MAX_IMAGES_PER_CALL :: nat where
  "MAX_IMAGES_PER_CALL = 5"

definition MAX_TOTAL_IMAGE_SIZE :: nat where
  "MAX_TOTAL_IMAGE_SIZE = 100 * 1024 * 1024"

definition API_VERSION :: string where
  "API_VERSION = ''2023-06-01''"

text \<open>
  The valves. \<open>MAX_TOTAL_TOKENS\<close> holds the value of \<open>int(self.valves.MAX_TOTAL_TOKENS)\<close>,
  which is 4000 for the default \<open>"4000"\<close>; \<open>None\<close> is a valve on which \<open>int\<close> raises.
\<close>

record valves =
  ANTHROPIC_API_KEY :: "string option"
  MAX_TOTAL_TOKENS :: "int option"

definition default_valves :: "string option \<Rightarrow> valves" where
  "default_valves key = \<lparr>ANTHROPIC_API_KEY = key, MAX_TOTAL_TOKENS = Some 4000\<rparr>"

subsection \<open>process\_image\<close>

definition unpack2 :: "string list \<Rightarrow> exn + (string \<times> string)" where
  "unpack2 xs =
     (case xs of
        [a, b] \<Rightarrow> Inr (a, b)
      | _ \<Rightarrow> Inl (ValueError ''not enough values to unpack (expected 2, got 1)''))"

definition image_url_of :: "json \<Rightarrow> exn + json" where
  "image_url_of image_data =
     ebind (subscript image_data ''image_url'') (\<lambda>iu. subscript iu ''url'')"

definition process_image :: "json \<Rightarrow> exn + json" where
  "process_image image_data =
     ebind (image_url_of image_data) (\<lambda>u.
       case u of
         JStr url \<Rightarrow>
           if startswith url ''data:image'' then
             ebind (unpack2 (split_once CHR '','' url)) (\<lambda>(mime_type, base64_data).
               ebind (index1 (split_on CHR '':'' mime_type)) (\<lambda>seg.
               ebind (index0 (split_on CHR '';'' seg)) (\<lambda>media_type.
                 Inr (JDict
                   [(''type'', JStr ''image''),
                    (''source'', JDict
                       [(''type'', JStr ''base64''),
                        (''media_type'', JStr media_type),
                        (''data'', JStr base64_data)])]))))
           else
             Inr (JDict
               [(''type'', JStr ''image''),
                (''source'', JDict [(''type'', JStr ''url''), (''url'', JStr url)])])
       | _ \<Rightarrow> Inl AttributeError)"

subsection \<open>extract\_system\_message\<close>

text \<open>The loop, with the two variables it assigns; \<open>JNull\<close> is Python's \<open>None\<close>.\<close>

fun extract_loop :: "json list \<Rightarrow> json \<Rightarrow> json list \<Rightarrow> exn + (json \<times> json list)" where
  "extract_loop [] system_message other_messages = Inr (system_message, other_messages)"
| "extract_loop (message # rest) system_message other_messages =
     (case subscript message ''role'' of
        Inl e \<Rightarrow> Inl e
      | Inr r \<Rightarrow>
          if r = JStr ''system'' then
            (case subscript message ''content'' of
               Inl e \<Rightarrow> Inl e
             | Inr c \<Rightarrow> extract_loop rest c other_messages)
          else extract_loop rest system_message (other_messages @ [message]))"

definition extract_system_message :: "json \<Rightarrow> exn + (json \<times> json list)" where
  "extract_system_message messages =
     ebind (py_iter messages) (\<lambda>ms. extract_loop ms JNull [])"

subsection \<open>Translation of the messages\<close>

text \<open>
  The size estimate \<open>len(data) * 3 / 4\<close> and the bound \<open>MAX_TOTAL_IMAGE_SIZE /
  MAX_IMAGES_PER_CALL\<close> are Python floats. Every value that is compared is a multiple of
  a quarter below \<open>2^53\<close>, where float arithmetic is exact, so they are reals here.
\<close>

definition estimate :: "string \<Rightarrow> real" where
  "estimate data = real (length data) * 3 / 4"

definition per_image_limit :: real where
  "per_image_limit = real MAX_TOTAL_IMAGE_SIZE / real MAX_IMAGES_PER_CALL"

definition image_limit_error :: exn where
  "image_limit_error = ValueError ''Maximum of 5 images per API call exceeded''"

definition image_size_error :: exn where
  "image_size_error = ValueError ''Image size exceeds maximum allowed size per image''"

definition total_size_error :: exn where
  "total_size_error = ValueError ''Total size of images exceeds 100.0 MB limit''"

text \<open>
  The size accounted for a processed image: the estimate when
  \<open>processed_image["source"]["type"] == "base64"\<close>, zero otherwise.
\<close>

definition image_size_of :: "json \<Rightarrow> exn + real" where
  "image_size_of processed_image =
     ebind (subscript processed_image ''source'') (\<lambda>src.
       ebind (subscript src ''type'') (\<lambda>ty.
         if ty = JStr ''base64'' then
           ebind (subscript src ''data'') (\<lambda>d.
             case d of
               JStr s \<Rightarrow>
                 if estimate s > per_image_limit then Inl image_size_error
                 else Inr (estimate s)
             | _ \<Rightarrow> Inl TypeError)
         else Inr 0))"

text \<open>
  The inner loop over the parts of one message. The state is \<open>processed_content\<close>,
  \<open>image_count\<close> and \<open>total_image_size\<close>.
\<close>

type_synonym acc = "json list \<times> nat \<times> real"

fun process_items :: "json list \<Rightarrow> acc \<Rightarrow> exn + acc" where
  "process_items [] st = Inr st"
| "process_items (item # items) (processed_content, image_count, total_image_size) =
     (case subscript item ''type'' of
        Inl e \<Rightarrow> Inl e
      | Inr ty \<Rightarrow>
          if ty = JStr ''text'' then
            (case subscript item ''text'' of
               Inl e \<Rightarrow> Inl e
             | Inr t \<Rightarrow>
                 process_items items
                   (processed_content @ [JDict [(''type'', JStr ''text''), (''text'', t)]],
                    image_count, total_image_size))
          else if ty = JStr ''image_url'' then
            (if image_count \<ge> MAX_IMAGES_PER_CALL then Inl image_limit_error
             else
               (case process_image item of
                  Inl e \<Rightarrow> Inl e
                | Inr processed_image \<Rightarrow>
                    (case image_size_of processed_image of
                       Inl e \<Rightarrow> Inl e
                     | Inr image_size \<Rightarrow>
                         if total_image_size + image_size > real MAX_TOTAL_IMAGE_SIZE
                         then Inl total_size_error
                         else
                           process_items items
                             (processed_content @ [processed_image],
                              image_count + 1, total_image_size + image_size))))
          else process_items items (processed_content, image_count, total_image_size))"

text \<open>One message: its processed content, then the entry appended to \<open>processed_messages\<close>.\<close>

definition process_content :: "json \<Rightarrow> nat \<Rightarrow> real \<Rightarrow> exn + acc" where
  "process_content message image_count total_image_size =
     ebind (py_get message ''content'' JNull) (\<lambda>c.
       case c of
         JList items \<Rightarrow> process_items items ([], image_count, total_image_size)
       | _ \<Rightarrow>
           ebind (py_get message ''content'' (JStr [])) (\<lambda>t.
             Inr ([JDict [(''type'', JStr ''text''), (''text'', t)]],
                  image_count, total_image_size)))"

fun process_messages :: "json list \<Rightarrow> acc \<Rightarrow> exn + acc" where
  "process_messages [] st = Inr st"
| "process_messages (message # rest) (processed_messages, image_count, total_image_size) =
     (case process_content message image_count total_image_size of
        Inl e \<Rightarrow> Inl e
      | Inr (processed_content, image_count', total_image_size') \<Rightarrow>
          (case subscript message ''role'' of
             Inl e \<Rightarrow> Inl e
           | Inr r \<Rightarrow>
               process_messages rest
                 (processed_messages @
                    [JDict [(''role'', r), (''content'', JList processed_content)]],
                  image_count', total_image_size')))"

subsection \<open>The payload\<close>

definition build_payload :: "valves \<Rightarrow> json \<Rightarrow> json \<Rightarrow> json list \<Rightarrow> exn + json" where
  "build_payload v body system_message processed_messages =
     ebind (subscript body ''model'') (\<lambda>m.
     ebind (strip_model m) (\<lambda>model.
     ebind (case MAX_TOTAL_TOKENS v of None \<Rightarrow> Inl TypeError | Some n \<Rightarrow> Inr (JInt n))
       (\<lambda>default_tokens.
     ebind (py_get body ''max_tokens'' default_tokens) (\<lambda>max_tokens.
     ebind (py_get body ''temperature'' (JFloat 0.8)) (\<lambda>temperature.
     ebind (py_get body ''top_k'' (JInt 40)) (\<lambda>top_k.
     ebind (py_get body ''top_p'' (JFloat 0.9)) (\<lambda>top_p.
     ebind (py_get body ''stop'' (JList [])) (\<lambda>stop.
     ebind (py_get body ''stream'' (JBool False)) (\<lambda>stream.
       Inr (JDict
         ([(''model'', model),
           (''messages'', JList processed_messages),
           (''max_tokens'', max_tokens),
           (''temperature'', temperature),
           (''top_k'', top_k),
           (''top_p'', top_p),
           (''stop_sequences'', stop)]
          @ (if truthy system_message then [(''system'', system_message)] else [])
          @ [(''stream'', stream)])))))))))))"

text \<open>
  The part of \<open>pipe\<close> before the transport is used: the key check, the extraction of the
  system message, the translation of the messages and the payload.
\<close>

definition translate :: "valves \<Rightarrow> json \<Rightarrow> exn + json" where
  "translate v body =
     (if (case ANTHROPIC_API_KEY v of None \<Rightarrow> True | Some k \<Rightarrow> k = []) then
        Inl (ValueError
          ''ANTHROPIC_API_KEY is not set. Please set it in your environment variables before making API calls.'')
      else
        ebind (subscript body ''messages'') (\<lambda>ms.
        ebind (extract_system_message ms) (\<lambda>(system_message, messages).
        ebind (process_messages messages ([], 0, 0)) (\<lambda>(processed_messages, _, _).
          build_payload v body system_message processed_messages))))"

definition anthropic_headers :: "valves \<Rightarrow> (string \<times> string) list" where
  "anthropic_headers v =
     [(''x-api-key'', (case ANTHROPIC_API_KEY v of None \<Rightarrow> [] | Some k \<Rightarrow> k)),
      (''anthropic-version'', API_VERSION),
      (''content-type'', ''application/json'')]"

definition anthropic_url :: string where
  "anthropic_url = ''https://api.anthropic.com/v1/messages''"

subsection \<open>non\_stream\_response\<close>

text \<open>\<open>res["content"][0]["text"] if "content" in res and res["content"] else ""\<close>.\<close>

definition first_text :: "json \<Rightarrow> exn + json" where
  "first_text res =
     ebind (py_contains res ''content'') (\<lambda>present.
       if present then
         ebind (subscript res ''content'') (\<lambda>c.
           if truthy c then ebind (py_index0 c) (\<lambda>b. subscript b ''text'')
           else Inr (JStr []))
       else Inr (JStr []))"

definition non_stream_response :: "transport \<Rightarrow> http_request \<Rightarrow> exn + json" where
  "non_stream_response post req =
     (case post req of
        ConnectionFailed msg \<Rightarrow> Inl (RequestException msg)
      | Responded response \<Rightarrow>
          if status_code response \<noteq> 200 then
            Inl (HTTPErrorException (status_code response) (resp_text response))
          else
            (case json_body response of
               None \<Rightarrow> Inl RequestsJSONDecodeError
             | Some res \<Rightarrow> first_text res))"

subsection \<open>stream\_response\<close>

text \<open>
  The generator is modelled by what its consumer observes: the values yielded in order,
  the log entries written, and the exception that ended it, if one did.
  \<open>line.decode("utf-8")\<close> and \<open>json.loads\<close> belong to the standard library and are
  parameters: \<open>decode\<close> and \<open>loads\<close> give \<open>None\<close> where the library raises
  \<open>UnicodeDecodeError\<close> and \<open>JSONDecodeError\<close>.
\<close>

text \<open>
  \<open>FailedToParse line\<close> is the entry of the \<open>JSONDecodeError\<close> handler;
  \<open>UnexpectedStructure e data\<close> stands for the two entries of the \<open>KeyError\<close> handler,
  which log the error and the data.
\<close>

datatype log_entry = FailedToParse string | UnexpectedStructure exn json

datatype flow = Next | Break | Throw exn

type_synonym produced = "json list \<times> log_entry list \<times> exn option"

definition emit :: "json list \<Rightarrow> log_entry list \<Rightarrow> produced \<Rightarrow> produced" where
  "emit ys ls p = (case p of (ys', ls', r) \<Rightarrow> (ys @ ys', ls @ ls', r))"

text \<open>The loop of the \<open>message\<close> branch: the values yielded and the exception, if any.\<close>

fun message_texts :: "json list \<Rightarrow> json list \<times> exn option" where
  "message_texts [] = ([], None)"
| "message_texts (content # rest) =
     (case subscript content ''type'' of
        Inl e \<Rightarrow> ([], Some e)
      | Inr ty \<Rightarrow>
          if ty = JStr ''text'' then
            (case subscript content ''text'' of
               Inl e \<Rightarrow> ([], Some e)
             | Inr t \<Rightarrow> (case message_texts rest of (ys, r) \<Rightarrow> (t # ys, r)))
          else message_texts rest)"

text \<open>The body of the \<open>try\<close> block after \<open>json.loads\<close>.\<close>

definition handle_data :: "json \<Rightarrow> json list \<times> flow" where
  "handle_data data =
     (case subscript data ''type'' of
        Inl e \<Rightarrow> ([], Throw e)
      | Inr ty \<Rightarrow>
          if ty = JStr ''content_block_start'' then
            (case ebind (subscript data ''content_block'') (\<lambda>b. subscript b ''text'') of
               Inl e \<Rightarrow> ([], Throw e)
             | Inr t \<Rightarrow> ([t], Next))
          else if ty = JStr ''content_block_delta'' then
            (case ebind (subscript data ''delta'') (\<lambda>d. subscript d ''text'') of
               Inl e \<Rightarrow> ([], Throw e)
             | Inr t \<Rightarrow> ([t], Next))
          else if ty = JStr ''message_stop'' then ([], Break)
          else if ty = JStr ''message'' then
            (case ebind (py_get data ''content'' (JList [])) py_iter of
               Inl e \<Rightarrow> ([], Throw e)
             | Inr contents \<Rightarrow>
                 (case message_texts contents of
                    (ys, None) \<Rightarrow> (ys, Next)
                  | (ys, Some e) \<Rightarrow> (ys, Throw e)))
          else ([], Next))"

fun stream_lines ::
  "(string \<Rightarrow> string option) \<Rightarrow> (string \<Rightarrow> json option) \<Rightarrow> string list \<Rightarrow> produced" where
  "stream_lines decode loads [] = ([], [], None)"
| "stream_lines decode loads (raw # rest) =
     (if raw = [] then stream_lines decode loads rest
      else
        (case decode raw of
           None \<Rightarrow> ([], [], Some UnicodeDecodeError)
         | Some line \<Rightarrow>
             if \<not> startswith line ''data: '' then stream_lines decode loads rest
             else
               (case loads (drop 6 line) of
                  None \<Rightarrow> emit [] [FailedToParse line] (stream_lines decode loads rest)
                | Some data \<Rightarrow>
                    (case handle_data data of
                       (ys, Next) \<Rightarrow> emit ys [] (stream_lines decode loads rest)
                     | (ys, Break) \<Rightarrow> (ys, [], None)
                     | (ys, Throw (KeyError k)) \<Rightarrow>
                         emit ys [UnexpectedStructure (KeyError k) data]
                           (stream_lines decode loads rest)
                     | (ys, Throw e) \<Rightarrow> (ys, [], Some e)))))"

definition stream_response ::
  "(string \<Rightarrow> string option) \<Rightarrow> (string \<Rightarrow> json option) \<Rightarrow> transport \<Rightarrow> http_request \<Rightarrow> produced"
  where
  "stream_response decode loads post req =
     (case post req of
        ConnectionFailed msg \<Rightarrow> ([], [], Some (RequestException msg))
      | Responded response \<Rightarrow>
          if status_code response \<noteq> 200 then
            ([], [], Some (HTTPErrorException (status_code response) (resp_text response)))
          else stream_lines decode loads (iter_lines response))"

subsection \<open>pipe\<close>

text \<open>
  What a call of \<open>pipe\<close> gives its host: a value, an error string (the prefix followed by
  \<open>str(e)\<close>), a generator that has not been started, or an exception. With it comes the
  list of the HTTP requests sent before \<open>pipe\<close> returned.
\<close>

datatype 'g outcome =
    Returns json
  | ReturnsError string exn
  | ReturnsGenerator 'g
  | Raises exn

text \<open>The three \<open>except\<close> clauses, in their order.\<close>

fun is_request_exception :: "exn \<Rightarrow> bool" where
  "is_request_exception (RequestException m) = True"
| "is_request_exception (HTTPError c) = True"
| "is_request_exception RequestsJSONDecodeError = True"
| "is_request_exception _ = False"

fun is_value_error :: "exn \<Rightarrow> bool" where
  "is_value_error (ValueError m) = True"
| "is_value_error UnicodeDecodeError = True"
| "is_value_error _ = False"

definition handler :: "exn \<Rightarrow> 'g outcome" where
  "handler e =
     (if is_request_exception e then ReturnsError ''Error: '' e
      else if is_value_error e then ReturnsError ''Error: '' e
      else ReturnsError ''Unexpected error: '' e)"

definition anthropic_pipe ::
  "valves \<Rightarrow> transport \<Rightarrow> json \<Rightarrow> http_request outcome \<times> http_request list" where
  "anthropic_pipe v post body =
     (case translate v body of
        Inl e \<Rightarrow> (handler e, [])
      | Inr p \<Rightarrow>
          (case py_get body ''stream'' (JBool False) of
             Inl e \<Rightarrow> (handler e, [])
           | Inr s \<Rightarrow>
               let req = \<lparr>req_url = anthropic_url, req_headers = anthropic_headers v,
                          req_payload = p, req_stream = truthy s\<rparr>
               in if truthy s then (ReturnsGenerator req, [])
                  else
                    (case non_stream_response post req of
                       Inl e \<Rightarrow> (handler e, [req])
                     | Inr r \<Rightarrow> (Returns r, [req]))))"

section \<open>OpenAI module\<close>

record openai_valves =
  OPENAI_API_BASE_URL :: string
  OPENAI_API_KEY :: string
  MODEL_FILTER :: string
  NAME_PREFIX :: string

text \<open>\<open>{**body, "model": model_id}\<close>: an existing key keeps its place.\<close>

definition dict_set :: "(string \<times> json) list \<Rightarrow> string \<Rightarrow> json \<Rightarrow> (string \<times> json) list" where
  "dict_set kvs k v =
     (if map_of kvs k = None then kvs @ [(k, v)]
      else map (\<lambda>kv. if fst kv = k then (k, v) else kv) kvs)"

definition openai_payload :: "json \<Rightarrow> exn + json" where
  "openai_payload body =
     ebind (subscript body ''model'') (\<lambda>m.
     ebind (strip_model m) (\<lambda>model_id.
       case body of
         JDict kvs \<Rightarrow> Inr (JDict (dict_set kvs ''model'' model_id))
       | _ \<Rightarrow> Inl TypeError))"

definition openai_headers :: "openai_valves \<Rightarrow> (string \<times> string) list" where
  "openai_headers v =
     [(''Authorization'', ''Bearer '' @ OPENAI_API_KEY v),
      (''Content-Type'', ''application/json'')]"

text \<open>
  \<open>raise_for_status\<close> raises for the status codes from 400 to 599. The generator that
  \<open>pipe\<close> returns in streaming mode holds the response already received.
\<close>

definition openai_pipe ::
  "openai_valves \<Rightarrow> transport \<Rightarrow> json \<Rightarrow> http_response outcome \<times> http_request list" where
  "openai_pipe v post body =
     (if OPENAI_API_KEY v = [] then
        (Raises (PlainException ''OPENAI_API_KEY not provided by the user.''), [])
      else
        (case openai_payload body of
           Inl e \<Rightarrow> (Raises e, [])
         | Inr p \<Rightarrow>
             let req = \<lparr>req_url = OPENAI_API_BASE_URL v @ ''/chat/completions'',
                        req_headers = openai_headers v, req_payload = p, req_stream = True\<rparr>
             in (case post req of
                   ConnectionFailed msg \<Rightarrow> (ReturnsError ''Error: '' (RequestException msg), [req])
                 | Responded response \<Rightarrow>
                     if 400 \<le> status_code response \<and> status_code response < 600 then
                       (ReturnsError ''Error: '' (HTTPError (status_code response)), [req])
                     else
                       (case py_get body ''stream'' (JBool False) of
                          Inl e \<Rightarrow> (ReturnsError ''Error: '' e, [req])
                        | Inr s \<Rightarrow>
                            if truthy s then (ReturnsGenerator response, [req])
                            else
                              (case json_body response of
                                 None \<Rightarrow> (ReturnsError ''Error: '' RequestsJSONDecodeError, [req])
                               | Some j \<Rightarrow> (Returns j, [req]))))))"

section \<open>Well-formed inputs\<close>

text \<open>
  A message of the host is a dictionary with a role; the content of a system message is
  read by \<open>extract_system_message\<close>, so a system message has one.
\<close>

definition is_system :: "json \<Rightarrow> bool" where
  "is_system m = (subscript m ''role'' = Inr (JStr ''system''))"

definition wf_message :: "json \<Rightarrow> bool" where
  "wf_message m =
     (case subscript m ''role'' of
        Inl e \<Rightarrow> False
      | Inr r \<Rightarrow>
          if r = JStr ''system'' then
            (case subscript m ''content'' of Inl e \<Rightarrow> False | Inr c \<Rightarrow> True)
          else True)"

definition content_of :: "json \<Rightarrow> json" where
  "content_of m = (case subscript m ''content'' of Inl e \<Rightarrow> JNull | Inr c \<Rightarrow> c)"

text \<open>The content of the last system message of a list, \<open>None\<close> when it has none.\<close>

definition last_system_text :: "json list \<Rightarrow> json" where
  "last_system_text ms =
     (case filter is_system ms of [] \<Rightarrow> JNull | s # ss \<Rightarrow> content_of (last (s # ss)))"

text \<open>The request of the model identifier example and a response with a given JSON body.\<close>

definition example_model_body :: json where
  "example_model_body =
     JDict [(''model'', JStr ''anthropic.claude-3-opus-20240229''), (''messages'', JList [])]"

definition example_request :: http_request where
  "example_request =
     \<lparr>req_url = ''https://api.anthropic.com/v1/messages'', req_headers = [],
      req_payload = JDict [], req_stream = False\<rparr>"

definition ok_response :: "json \<Rightarrow> http_response" where
  "ok_response j = \<lparr>status_code = 200, resp_text = [], json_body = Some j, iter_lines = []\<rparr>"

section \<open>Events of the stream\<close>

text \<open>What the consumer of a generator sees of it.\<close>

definition yielded :: "produced \<Rightarrow> json list" where "yielded p = fst p"
definition raised :: "produced \<Rightarrow> exn option" where "raised p = snd (snd p)"

text \<open>
  The JSON value of a line: what \<open>json.loads\<close> gives on the text after the \<open>data: \<close>
  prefix. A blank line, a line that is not text and a line without the prefix have none.
\<close>

definition data_of ::
  "(string \<Rightarrow> string option) \<Rightarrow> (string \<Rightarrow> json option) \<Rightarrow> string \<Rightarrow> json option" where
  "data_of decode loads raw =
     (if raw = [] then None
      else (case decode raw of
              None \<Rightarrow> None
            | Some line \<Rightarrow> if startswith line ''data: '' then loads (drop 6 line) else None))"

text \<open>An entry of a JSON object; a value that is not an object has no entries.\<close>

definition field :: "json \<Rightarrow> string \<Rightarrow> json option" where
  "field j k = (case j of JDict kvs \<Rightarrow> map_of kvs k | _ \<Rightarrow> None)"

text \<open>A blank line, or a line of text without the prefix.\<close>

definition ignored_line :: "(string \<Rightarrow> string option) \<Rightarrow> string \<Rightarrow> bool" where
  "ignored_line decode raw =
     (raw = [] \<or> (case decode raw of None \<Rightarrow> False | Some line \<Rightarrow> \<not> startswith line ''data: ''))"

text \<open>
  The events of section 4.3 of the specification, with the text they carry, and the
  fragments that a sequence of events stands for: the text of each start and delta, the
  text entries of each complete message, nothing for any other event, and nothing at all
  from the first stop on.
\<close>

datatype event =
    ContentBlockStart json
  | ContentBlockDelta json
  | MessageStop
  | Message "json list"
  | OtherEvent
  | NoEvent

fun fragments :: "event list \<Rightarrow> json list" where
  "fragments [] = []"
| "fragments (ContentBlockStart t # es) = t # fragments es"
| "fragments (ContentBlockDelta t # es) = t # fragments es"
| "fragments (MessageStop # es) = []"
| "fragments (Message ts # es) = ts @ fragments es"
| "fragments (OtherEvent # es) = fragments es"
| "fragments (NoEvent # es) = fragments es"

text \<open>When a JSON value is an event, and when a line represents one.\<close>

definition text_in :: "json \<Rightarrow> string \<Rightarrow> json option" where
  "text_in d k = (case field d k of None \<Rightarrow> None | Some b \<Rightarrow> field b ''text'')"

definition wf_entry :: "json \<Rightarrow> bool" where
  "wf_entry c =
     (case field c ''type'' of
        None \<Rightarrow> False
      | Some ty \<Rightarrow> if ty = JStr ''text'' then field c ''text'' \<noteq> None else True)"

definition entry_texts :: "json list \<Rightarrow> json list" where
  "entry_texts cs =
     map (\<lambda>c. case field c ''text'' of None \<Rightarrow> JNull | Some t \<Rightarrow> t)
       (filter (\<lambda>c. field c ''type'' = Some (JStr ''text'')) cs)"

fun is_event :: "json \<Rightarrow> event \<Rightarrow> bool" where
  "is_event d (ContentBlockStart t) =
     (field d ''type'' = Some (JStr ''content_block_start'') \<and> text_in d ''content_block'' = Some t)"
| "is_event d (ContentBlockDelta t) =
     (field d ''type'' = Some (JStr ''content_block_delta'') \<and> text_in d ''delta'' = Some t)"
| "is_event d MessageStop = (field d ''type'' = Some (JStr ''message_stop''))"
| "is_event d (Message ts) =
     (field d ''type'' = Some (JStr ''message'') \<and>
      (case field d ''content'' of
         None \<Rightarrow> ts = []
       | Some (JList cs) \<Rightarrow> list_all wf_entry cs \<and> ts = entry_texts cs
       | Some _ \<Rightarrow> False))"
| "is_event d OtherEvent =
     (case field d ''type'' of
        None \<Rightarrow> False
      | Some ty \<Rightarrow> ty \<notin> {JStr ''content_block_start'', JStr ''content_block_delta'',
                          JStr ''message_stop'', JStr ''message''})"
| "is_event d NoEvent = False"

definition represents ::
  "(string \<Rightarrow> string option) \<Rightarrow> (string \<Rightarrow> json option) \<Rightarrow> string \<Rightarrow> event \<Rightarrow> bool" where
  "represents decode loads raw ev =
     (if ev = NoEvent then ignored_line decode raw
      else (case data_of decode loads raw of None \<Rightarrow> False | Some d \<Rightarrow> is_event d ev))"

text \<open>
  A line with the prefix is malformed when its text is not JSON, or its JSON is an object
  that lacks the \<open>type\<close> entry or an entry that its type is read for: \<open>content_block\<close> and
  its \<open>text\<close> for a start, \<open>delta\<close> and its \<open>text\<close> for a delta, and for a message the
  \<open>type\<close> of a content entry or the \<open>text\<close> of a text entry, the entries before it being
  complete.
\<close>

fun no_text :: "json option \<Rightarrow> bool" where
  "no_text None = True"
| "no_text (Some (JDict kvs)) = (map_of kvs ''text'' = None)"
| "no_text (Some _) = False"

fun faulty_entries :: "json list \<Rightarrow> bool" where
  "faulty_entries [] = False"
| "faulty_entries (c # cs) =
     (case c of
        JDict e \<Rightarrow>
          (case map_of e ''type'' of
             None \<Rightarrow> True
           | Some ty \<Rightarrow>
               if ty = JStr ''text'' then
                 (case map_of e ''text'' of None \<Rightarrow> True | Some t \<Rightarrow> faulty_entries cs)
               else faulty_entries cs)
      | _ \<Rightarrow> False)"

definition lacks_field :: "json \<Rightarrow> bool" where
  "lacks_field d =
     (case d of
        JDict kvs \<Rightarrow>
          (case map_of kvs ''type'' of
             None \<Rightarrow> True
           | Some ty \<Rightarrow>
               if ty = JStr ''content_block_start'' then no_text (map_of kvs ''content_block'')
               else if ty = JStr ''content_block_delta'' then no_text (map_of kvs ''delta'')
               else if ty = JStr ''message'' then
                 (case map_of kvs ''content'' of
                    Some (JList cs) \<Rightarrow> faulty_entries cs
                  | _ \<Rightarrow> False)
               else False)
      | _ \<Rightarrow> False)"

definition malformed ::
  "(string \<Rightarrow> string option) \<Rightarrow> (string \<Rightarrow> json option) \<Rightarrow> string \<Rightarrow> bool" where
  "malformed decode loads raw =
     (raw \<noteq> [] \<and>
      (case decode raw of
         None \<Rightarrow> False
       | Some line \<Rightarrow>
           startswith line ''data: '' \<and>
           (case loads (drop 6 line) of None \<Rightarrow> True | Some d \<Rightarrow> lacks_field d)))"

text \<open>A line that carries an event of type \<open>message\<close>.\<close>

definition is_message_line ::
  "(string \<Rightarrow> string option) \<Rightarrow> (string \<Rightarrow> json option) \<Rightarrow> string \<Rightarrow> bool" where
  "is_message_line decode loads raw =
     (case data_of decode loads raw of
        None \<Rightarrow> False
      | Some d \<Rightarrow> field d ''type'' = Some (JStr ''message''))"

text \<open>
  The lines of the examples, and \<open>json.loads\<close> on their payloads: \<open>example_loads\<close> agrees
  with the library on the seven JSON texts below and on \<open>not-json\<close>, which is not JSON.
\<close>

definition he_line :: string where
  \<open>he_line = ''data: {"type":"content_block_delta","delta":{"text":"He"}}''\<close>

definition llo_line :: string where
  \<open>llo_line = ''data: {"type":"content_block_delta","delta":{"text":"llo"}}''\<close>

definition stop_line :: string where
  \<open>stop_line = ''data: {"type":"message_stop"}''\<close>

definition ignored_delta_line :: string where
  \<open>ignored_delta_line = ''data: {"type":"content_block_delta","delta":{"text":"ignored"}}''\<close>

definition message_line :: string where
  \<open>message_line = ''data: {"type":"message","content":[{"type":"text","text":"hi"}]}''\<close>

definition ping_line :: string where
  \<open>ping_line = ''data: {"type":"ping"}''\<close>

definition event_name_line :: string where
  "event_name_line = ''event: content_block_delta''"

definition missing_delta_line :: string where
  \<open>missing_delta_line = ''data: {"type":"content_block_delta"}''\<close>

definition not_json_line :: string where
  \<open>not_json_line = ''data: not-json''\<close>

definition delta_data :: "string \<Rightarrow> json" where
  "delta_data t =
     JDict [(''type'', JStr ''content_block_delta''), (''delta'', JDict [(''text'', JStr t)])]"

definition message_data :: json where
  "message_data =
     JDict [(''type'', JStr ''message''),
            (''content'', JList [JDict [(''type'', JStr ''text''), (''text'', JStr ''hi'')]])]"

definition example_loads :: "string \<Rightarrow> json option" where
  \<open>example_loads s =
     (if s = ''{"type":"content_block_delta","delta":{"text":"He"}}'' then Some (delta_data ''He'')
      else if s = ''{"type":"content_block_delta","delta":{"text":"llo"}}'' then Some (delta_data ''llo'')
      else if s = ''{"type":"content_block_delta","delta":{"text":"ignored"}}''
        then Some (delta_data ''ignored'')
      else if s = ''{"type":"content_block_delta"}''
        then Some (JDict [(''type'', JStr ''content_block_delta'')])
      else if s = ''{"type":"ping"}'' then Some (JDict [(''type'', JStr ''ping'')])
      else if s = ''{"type":"message_stop"}'' then Some (JDict [(''type'', JStr ''message_stop'')])
      else if s = ''{"type":"message","content":[{"type":"text","text":"hi"}]}''
        then Some message_data
      else None)\<close>

section \<open>Requests and their image parts\<close>

text \<open>
  A \<open>data:\<close> URI separates its media type from its data by a comma; a url that starts
  with \<open>data:image\<close> is well formed when it has one.
\<close>

definition wf_url :: "string \<Rightarrow> bool" where
  "wf_url u = (if startswith u ''data:image'' then CHR '','' \<in> set u else True)"

text \<open>
  The kind of source of a processed image, and the two shapes \<open>process_image\<close>
  returns.
\<close>

definition source_kind :: "exn + json \<Rightarrow> json option" where
  "source_kind r =
     (case r of
        Inl e \<Rightarrow> None
      | Inr p \<Rightarrow> (case field p ''source'' of None \<Rightarrow> None | Some s \<Rightarrow> field s ''type''))"

definition url_part :: "string \<Rightarrow> json" where
  "url_part u =
     JDict [(''type'', JStr ''image''),
            (''source'', JDict [(''type'', JStr ''url''), (''url'', JStr u)])]"

definition base64_part :: "string \<Rightarrow> string \<Rightarrow> json" where
  "base64_part media_type d =
     JDict [(''type'', JStr ''image''),
            (''source'', JDict [(''type'', JStr ''base64''), (''media_type'', JStr media_type),
                                (''data'', JStr d)])]"

text \<open>
  The base64 text of a \<open>data:\<close> URI: what follows its first comma.
\<close>

definition after_comma :: "string \<Rightarrow> string" where
  "after_comma u = tl (dropWhile (\<lambda>x. x \<noteq> CHR '','') u)"

text \<open>
  An image part of the host: \<open>{"type": "image_url", "image_url": {"url": u}}\<close>.
\<close>

definition image_item :: "string \<Rightarrow> json" where
  "image_item u = JDict [(''type'', JStr ''image_url''), (''image_url'', JDict [(''url'', JStr u)])]"

text \<open>
  The invariant of the two counters: at most five images were counted, and each of them
  added at most the bound of one image to the total.
\<close>

definition accounted :: "acc \<Rightarrow> bool" where
  "accounted st =
     (case st of (pc, image_count, tot) \<Rightarrow>
        image_count \<le> MAX_IMAGES_PER_CALL \<and> 0 \<le> tot
        \<and> tot \<le> real image_count * per_image_limit)"

text \<open>
  The parts of a message, as the translation reads them. A well-formed part has a type; a
  text part has a text, an image part has a well-formed url string.
\<close>

definition is_image_part :: "json \<Rightarrow> bool" where
  "is_image_part item = (field item ''type'' = Some (JStr ''image_url''))"

definition url_of :: "json \<Rightarrow> string" where
  "url_of item = (case image_url_of item of Inr (JStr u) \<Rightarrow> u | _ \<Rightarrow> [])"

definition wf_part :: "json \<Rightarrow> bool" where
  "wf_part item =
     (case field item ''type'' of
        None \<Rightarrow> False
      | Some ty \<Rightarrow>
          if ty = JStr ''text'' then field item ''text'' \<noteq> None
          else if ty = JStr ''image_url'' then
            image_url_of item = Inr (JStr (url_of item)) \<and> wf_url (url_of item)
          else True)"

text \<open>
  The size estimated for an image url: the estimate of its base64 text when it starts
  with \<open>data:image\<close>, zero otherwise.
\<close>

definition size_of_url :: "string \<Rightarrow> real" where
  "size_of_url u = (if startswith u ''data:image'' then estimate (after_comma u) else 0)"

definition within_limit :: "json \<Rightarrow> bool" where
  "within_limit item = (size_of_url (url_of item) \<le> per_image_limit)"

text \<open>
  The parts of a message whose content is a list, and the image parts of a list of
  messages in the order of the translation.
\<close>

definition parts_of :: "json \<Rightarrow> json list" where
  "parts_of m = (case field m ''content'' of Some (JList items) \<Rightarrow> items | _ \<Rightarrow> [])"

definition images_of :: "json list \<Rightarrow> json list" where
  "images_of ms = filter is_image_part (concat (map parts_of ms))"

definition wf_chat_message :: "json \<Rightarrow> bool" where
  "wf_chat_message m = (wf_message m \<and> list_all wf_part (parts_of m))"

text \<open>
  What the checks of the loop decide for the image parts \<open>imgs\<close> met after \<open>cnt\<close>
  images were counted: the size error at the first image over its bound among those the
  count admits, otherwise the limit error when there are more than the count admits,
  otherwise no error.
\<close>

definition verdict :: "nat \<Rightarrow> json list \<Rightarrow> exn option" where
  "verdict cnt imgs =
     (if \<not> list_all within_limit (take (5 - cnt) imgs) then Some image_size_error
      else if cnt + length imgs > 5 then Some image_limit_error
      else None)"

text \<open>
  The messages of a request, and the image parts that the translation counts: those of
  the messages left after the system messages were taken out.
\<close>

definition messages_of :: "json \<Rightarrow> json list" where
  "messages_of body = (case field body ''messages'' of Some (JList ms) \<Rightarrow> ms | _ \<Rightarrow> [])"

definition counted_images :: "json \<Rightarrow> json list" where
  "counted_images body = images_of (filter (\<lambda>m. \<not> is_system m) (messages_of body))"

text \<open>
  A request that the translation can read: the key is set, the token valve is an integer,
  the messages are a list of well-formed messages and the model is a string.
\<close>

definition key_set :: "valves \<Rightarrow> bool" where
  "key_set v = (case ANTHROPIC_API_KEY v of None \<Rightarrow> False | Some k \<Rightarrow> k \<noteq> [])"

definition wf_request :: "valves \<Rightarrow> json \<Rightarrow> bool" where
  "wf_request v body =
     (key_set v \<and> MAX_TOTAL_TOKENS v \<noteq> None
      \<and> (case field body ''messages'' of
            Some (JList ms) \<Rightarrow> list_all wf_chat_message ms
          | _ \<Rightarrow> False)
      \<and> (case field body ''model'' of Some (JStr m) \<Rightarrow> True | _ \<Rightarrow> False))"

text \<open>
  Whether the request asks for streaming, and the request the Anthropic module posts.
\<close>

definition stream_requested :: "json \<Rightarrow> bool" where
  "stream_requested body =
     (case py_get body ''stream'' (JBool False) of Inl e \<Rightarrow> False | Inr s \<Rightarrow> truthy s)"

definition anthropic_request :: "valves \<Rightarrow> json \<Rightarrow> bool \<Rightarrow> http_request" where
  "anthropic_request v p s =
     \<lparr>req_url = anthropic_url, req_headers = anthropic_headers v, req_payload = p, req_stream = s\<rparr>"

text \<open>
  Requests of the examples.
\<close>

definition url_image :: json where
  "url_image = image_item ''https://example.com/a.png''"

definition user_message :: "json \<Rightarrow> json" where
  "user_message c = JDict [(''role'', JStr ''user''), (''content'', c)]"

definition system_message :: "json \<Rightarrow> json" where
  "system_message c = JDict [(''role'', JStr ''system''), (''content'', c)]"

definition request_body :: "json list \<Rightarrow> json" where
  "request_body ms =
     JDict [(''model'', JStr ''anthropic.claude-3-opus-20240229''), (''messages'', JList ms)]"

definition six_images_body :: json where
  "six_images_body =
     request_body
       [user_message (JList [url_image, url_image, url_image]),
        user_message (JList [url_image, url_image, url_image])]"

definition one_image_body :: json where
  "one_image_body = request_body [user_message (JList [url_image])]"

definition six_in_system_body :: json where
  "six_in_system_body =
     request_body
       [system_message (JList [url_image, url_image, url_image, url_image, url_image, url_image]),
        user_message (JStr ''hi'')]"

definition ok_transport :: transport where
  "ok_transport q =
     Responded (ok_response
       (JDict [(''content'', JList [JDict [(''type'', JStr ''text''), (''text'', JStr ''ok'')]])]))"

definition example_valves :: valves where
  "example_valves = default_valves (Some ''sk-test'')"

text \<open>
  Base64 texts of 27 000 000 and 28 000 000 characters: estimates of 20 250 000 bytes,
  below the bound of 20 971 520 for one image, and of 21 000 000 bytes, above it.
\<close>

definition big_data :: string where
  "big_data = replicate 27000000 (CHR ''A'')"

definition huge_data :: string where
  "huge_data = replicate 28000000 (CHR ''A'')"

definition data_url :: "string \<Rightarrow> string" where
  "data_url d = ''data:image/png;base64,'' @ d"

definition data_image :: "string \<Rightarrow> json" where
  "data_image d = image_item (data_url d)"

definition six_big_images_body :: json where
  "six_big_images_body =
     request_body
       [user_message (JList [data_image big_data, data_image big_data, data_image big_data,
                             data_image big_data, data_image big_data, data_image big_data])]"

definition huge_image_body :: json where
  "huge_image_body = request_body [user_message (JList [data_image huge_data])]"

text \<open>
  The value a request gives for a key, or a default.
\<close>

definition get_or :: "json \<Rightarrow> string \<Rightarrow> json \<Rightarrow> json" where
  "get_or body k d = (case field body k of None \<Rightarrow> d | Some x \<Rightarrow> x)"

definition empty_system_body :: json where
  "empty_system_body = request_body [system_message (JStr []), user_message (JStr ''hi'')]"

definition empty_system_payload :: json where
  "empty_system_payload =
     JDict
       [(''model'', JStr ''claude-3-opus-20240229''),
        (''messages'',
         JList [JDict [(''role'', JStr ''user''),
                       (''content'', JList [JDict [(''type'', JStr ''text''),
                                                   (''text'', JStr ''hi'')]])]]),
        (''max_tokens'', JInt 4000),
        (''temperature'', JFloat 0.8),
        (''top_k'', JInt 40),
        (''top_p'', JFloat 0.9),
        (''stop_sequences'', JList []),
        (''stream'', JBool False)]"

definition plain_body :: json where
  "plain_body = request_body [system_message (JStr ''Be brief''), user_message (JStr ''hi'')]"

text \<open>
  A transport that fails to connect, valves of the OpenAI module without and with a key,
  and a transport that answers with status 500.
\<close>

definition refusing_transport :: transport where
  "refusing_transport q = ConnectionFailed ''connection refused''"

definition no_key_valves :: openai_valves where
  "no_key_valves =
     \<lparr>OPENAI_API_BASE_URL = ''https://api.openai.com/v1'', OPENAI_API_KEY = [],
      MODEL_FILTER = ''gpt-4o,dall-e'', NAME_PREFIX = ''OPENAI/''\<rparr>"

definition openai_request :: "openai_valves \<Rightarrow> json \<Rightarrow> http_request" where
  "openai_request v p =
     \<lparr>req_url = OPENAI_API_BASE_URL v @ ''/chat/completions'', req_headers = openai_headers v,
      req_payload = p, req_stream = True\<rparr>"

definition key_valves :: openai_valves where
  "key_valves = no_key_valves\<lparr>OPENAI_API_KEY := ''sk-test''\<rparr>"

definition error_response :: http_response where
  "error_response =
     \<lparr>status_code = 500, resp_text = ''overloaded'', json_body = None, iter_lines = []\<rparr>"

definition failing_transport :: transport where
  "failing_transport q = Responded error_response"

text \<open>
  The error of the missing key.
\<close>

definition missing_key_error :: exn where
  "missing_key_error = ValueError
     ''ANTHROPIC_API_KEY is not set. Please set it in your environment variables before making API calls.''"

section \<open>The model identifier\<close>

lemma str_find_absent: "c \<notin> set s \<Longrightarrow> str_find s c = - 1"
  by (induction s) (auto simp: Let_def)

lemma str_find_first: "c \<notin> set pre \<Longrightarrow> str_find (pre @ c # post) c = int (length pre)"
  by (induction pre) (auto simp: Let_def)

lemma vendor_model_id_no_dot: "CHR ''.'' \<notin> set m \<Longrightarrow> vendor_model_id m = m"
  by (simp add: vendor_model_id_def slice_from_def str_find_absent)

lemma nat_int_Suc: "nat (int n + 1) = Suc n"
  by simp

lemma vendor_model_id_dot:
  "CHR ''.'' \<notin> set pre \<Longrightarrow> vendor_model_id (pre @ CHR ''.'' # post) = post"
  by (simp add: vendor_model_id_def slice_from_def str_find_first nat_int_Suc del: of_nat_Suc)

lemma build_payload_model:
  "subscript body ''model'' = Inr (JStr m) \<Longrightarrow> build_payload v body s pm = Inr p \<Longrightarrow>
   subscript p ''model'' = Inr (JStr (vendor_model_id m))"
  by (auto simp: build_payload_def ebind_def split: sum.splits option.splits)

lemma map_of_dict_set_same: "map_of (dict_set kvs k v) k = Some v"
  by (induction kvs) (auto simp: dict_set_def split: if_splits)

lemma openai_payload_model:
  "subscript body ''model'' = Inr (JStr m) \<Longrightarrow> openai_payload body = Inr p \<Longrightarrow>
   subscript p ''model'' = Inr (JStr (vendor_model_id m))"
  by (auto simp: openai_payload_def ebind_def map_of_dict_set_same split: sum.splits json.splits)

text \<open>
  C7. The model identifier of the payload is the input without everything up to and
  including its first dot, and the input itself when it has no dot; this is the
  \<open>model\<close> entry of the payload of both modules.
\<close>

theorem model_prefix_stripped:
  "(CHR ''.'' \<notin> set m \<longrightarrow> vendor_model_id m = m)
   \<and> (\<forall>pre post. m = pre @ CHR ''.'' # post \<and> CHR ''.'' \<notin> set pre
         \<longrightarrow> vendor_model_id m = post)
   \<and> (subscript body ''model'' = Inr (JStr m) \<longrightarrow>
        (\<forall>v s pm p. build_payload v body s pm = Inr p
           \<longrightarrow> subscript p ''model'' = Inr (JStr (vendor_model_id m)))
        \<and> (\<forall>p. openai_payload body = Inr p
           \<longrightarrow> subscript p ''model'' = Inr (JStr (vendor_model_id m))))"
  using vendor_model_id_no_dot vendor_model_id_dot build_payload_model openai_payload_model
  by blast

theorem model_prefix_stripped_witness:
  "vendor_model_id ''anthropic.claude-3-opus-20240229'' = ''claude-3-opus-20240229''
   \<and> vendor_model_id ''gpt-4o'' = ''gpt-4o''
   \<and> (\<exists>p. build_payload (default_valves (Some ''k'')) example_model_body JNull [] = Inr p
          \<and> subscript p ''model'' = Inr (JStr ''claude-3-opus-20240229''))
   \<and> (\<exists>p. openai_payload example_model_body = Inr p
          \<and> subscript p ''model'' = Inr (JStr ''claude-3-opus-20240229''))"
proof -
  let ?m = "''anthropic.claude-3-opus-20240229''"
  have shape: "?m = ''anthropic'' @ CHR ''.'' # ''claude-3-opus-20240229''"
    and nodot: "CHR ''.'' \<notin> set ''anthropic''"
    by simp_all
  have model: "subscript example_model_body ''model'' = Inr (JStr ?m)"
    by (simp add: example_model_body_def)
  note main = model_prefix_stripped [of ?m example_model_body]
  from main shape nodot have id: "vendor_model_id ?m = ''claude-3-opus-20240229''"
    by blast
  have "CHR ''.'' \<notin> set ''gpt-4o''"
    by simp
  with model_prefix_stripped [of "''gpt-4o''" example_model_body]
  have plain: "vendor_model_id ''gpt-4o'' = ''gpt-4o''"
    by blast
  obtain p where p: "build_payload (default_valves (Some ''k'')) example_model_body JNull [] = Inr p"
    by (simp add: build_payload_def ebind_def example_model_body_def default_valves_def)
  obtain q where q: "openai_payload example_model_body = Inr q"
    by (simp add: openai_payload_def ebind_def example_model_body_def)
  from main model p have "subscript p ''model'' = Inr (JStr (vendor_model_id ?m))"
    by blast
  moreover from main model q have "subscript q ''model'' = Inr (JStr (vendor_model_id ?m))"
    by blast
  ultimately show ?thesis
    using id plain p q by simp
qed

section \<open>Extraction of the system message\<close>

lemma extract_loop_spec:
  "\<forall>m\<in>set ms. wf_message m \<Longrightarrow>
   extract_loop ms sys others =
     Inr (case filter is_system ms of [] \<Rightarrow> sys | s # ss \<Rightarrow> content_of (last (s # ss)),
          others @ filter (\<lambda>m. \<not> is_system m) ms)"
proof (induction ms arbitrary: sys others)
  case Nil
  then show ?case by simp
next
  case (Cons m ms)
  from Cons.prems have wf: "wf_message m" and rest: "\<forall>m\<in>set ms. wf_message m"
    by simp_all
  show ?case
  proof (cases "is_system m")
    case True
    with wf obtain c where c: "subscript m ''content'' = Inr c"
      by (auto simp: wf_message_def is_system_def split: sum.splits)
    from True have r: "subscript m ''role'' = Inr (JStr ''system'')"
      by (simp add: is_system_def)
    show ?thesis
      using True c r Cons.IH[OF rest, of c others]
      by (simp add: content_of_def split: list.splits)
  next
    case False
    with wf obtain r where r: "subscript m ''role'' = Inr r" "r \<noteq> JStr ''system''"
      by (auto simp: wf_message_def is_system_def split: sum.splits)
    show ?thesis
      using False r Cons.IH[OF rest, of sys "others @ [m]"]
      by simp
  qed
qed

text \<open>
  C4. For a list of messages, \<open>extract_system_message\<close> returns the content of the last
  message whose role is \<open>system\<close> (\<open>None\<close> when there is none) and the other messages in
  their order.
\<close>

theorem extract_system_last_wins:
  "\<forall>m\<in>set ms. wf_message m \<Longrightarrow>
   extract_system_message (JList ms) =
     Inr (last_system_text ms, filter (\<lambda>m. \<not> is_system m) ms)"
  by (simp add: extract_system_message_def ebind_def extract_loop_spec last_system_text_def)

theorem extract_system_last_wins_witness:
  "extract_system_message
     (JList [JDict [(''role'', JStr ''system''), (''content'', JStr ''A'')],
             JDict [(''role'', JStr ''system''), (''content'', JStr ''B'')],
             JDict [(''role'', JStr ''user''), (''content'', JStr ''hi'')]])
   = Inr (JStr ''B'', [JDict [(''role'', JStr ''user''), (''content'', JStr ''hi'')]])"
  using extract_system_last_wins
    [of "[JDict [(''role'', JStr ''system''), (''content'', JStr ''A'')],
          JDict [(''role'', JStr ''system''), (''content'', JStr ''B'')],
          JDict [(''role'', JStr ''user''), (''content'', JStr ''hi'')]]"]
  by (simp add: wf_message_def is_system_def last_system_text_def content_of_def)

section \<open>The buffered response\<close>

lemma first_text_dict:
  "first_text (JDict kvs) =
     (case map_of kvs ''content'' of
        None \<Rightarrow> Inr (JStr [])
      | Some c \<Rightarrow>
          if truthy c then ebind (py_index0 c) (\<lambda>b. subscript b ''text'') else Inr (JStr []))"
  by (simp add: first_text_def ebind_def split: option.splits)

text \<open>
  C9. On a response with status 200 whose body is a JSON object, \<open>non_stream_response\<close>
  returns the empty string when the object has no \<open>content\<close> key or an empty \<open>content\<close>
  array, and the \<open>text\<close> of the first block of a non-empty \<open>content\<close> array.
\<close>

theorem buffered_first_block_text:
  assumes "post req = Responded r" and "status_code r = 200"
    and "json_body r = Some (JDict kvs)"
  shows "(map_of kvs ''content'' = None \<or> map_of kvs ''content'' = Some (JList [])
            \<longrightarrow> non_stream_response post req = Inr (JStr []))
       \<and> (\<forall>b bs. map_of kvs ''content'' = Some (JList (b # bs))
            \<longrightarrow> non_stream_response post req = subscript b ''text'')"
  using assms by (auto simp: non_stream_response_def first_text_dict ebind_def)

theorem buffered_first_block_text_witness:
  "non_stream_response (\<lambda>q. Responded (ok_response (JDict [(''content'', JList [])]))) example_request
     = Inr (JStr [])
   \<and> non_stream_response
       (\<lambda>q. Responded (ok_response
          (JDict [(''content'', JList [JDict [(''type'', JStr ''text''), (''text'', JStr ''ok'')]])])))
       example_request
     = Inr (JStr ''ok'')
   \<and> non_stream_response (\<lambda>q. Responded (ok_response (JDict []))) example_request = Inr (JStr [])"
  using
    buffered_first_block_text
      [of "\<lambda>q. Responded (ok_response (JDict [(''content'', JList [])]))" example_request
          "ok_response (JDict [(''content'', JList [])])" "[(''content'', JList [])]"]
    buffered_first_block_text
      [of "\<lambda>q. Responded (ok_response
             (JDict [(''content'', JList [JDict [(''type'', JStr ''text''), (''text'', JStr ''ok'')]])]))"
          example_request
          "ok_response
             (JDict [(''content'', JList [JDict [(''type'', JStr ''text''), (''text'', JStr ''ok'')]])])"
          "[(''content'', JList [JDict [(''type'', JStr ''text''), (''text'', JStr ''ok'')]])]"]
    buffered_first_block_text
      [of "\<lambda>q. Responded (ok_response (JDict []))" example_request "ok_response (JDict [])" "[]"]
  by (simp add: ok_response_def)

section \<open>The streamed response\<close>

lemma field_subscript: "field d k = Some v \<Longrightarrow> subscript d k = Inr v"
  by (cases d) (auto simp: field_def)

lemma text_in_subscript:
  "text_in d k = Some t \<Longrightarrow> ebind (subscript d k) (\<lambda>b. subscript b ''text'') = Inr t"
  by (auto simp: text_in_def ebind_def field_subscript split: option.splits)

lemma message_texts_wf:
  "list_all wf_entry cs \<Longrightarrow> message_texts cs = (entry_texts cs, None)"
proof (induction cs)
  case Nil
  then show ?case by (simp add: entry_texts_def)
next
  case (Cons c cs)
  then have wf: "wf_entry c" and IH: "message_texts cs = (entry_texts cs, None)" by simp_all
  from wf obtain ty where ty: "field c ''type'' = Some ty"
    by (auto simp: wf_entry_def split: option.splits)
  show ?case
  proof (cases "ty = JStr ''text''")
    case True
    with wf ty obtain t where t: "field c ''text'' = Some t"
      by (auto simp: wf_entry_def)
    show ?thesis
      using True ty t IH field_subscript[OF ty] field_subscript[OF t]
      by (simp add: entry_texts_def)
  next
    case False
    show ?thesis
      using False ty IH field_subscript[OF ty]
      by (simp add: entry_texts_def)
  qed
qed

lemma handle_data_event:
  "is_event d ev \<Longrightarrow>
   handle_data d = (case ev of
       ContentBlockStart t \<Rightarrow> ([t], Next)
     | ContentBlockDelta t \<Rightarrow> ([t], Next)
     | MessageStop \<Rightarrow> ([], Break)
     | Message ts \<Rightarrow> (ts, Next)
     | _ \<Rightarrow> ([], Next))"
proof (cases ev)
  case (ContentBlockStart t)
  assume "is_event d ev"
  with ContentBlockStart show ?thesis
    by (simp add: handle_data_def field_subscript text_in_subscript)
next
  case (ContentBlockDelta t)
  assume "is_event d ev"
  with ContentBlockDelta show ?thesis
    by (simp add: handle_data_def field_subscript text_in_subscript)
next
  case MessageStop
  assume "is_event d ev"
  with MessageStop show ?thesis
    by (simp add: handle_data_def field_subscript)
next
  case (Message ts)
  assume ev: "is_event d ev"
  with Message have ty: "field d ''type'' = Some (JStr ''message'')" by simp
  then obtain kvs where d: "d = JDict kvs" by (cases d) (auto simp: field_def)
  show ?thesis
  proof (cases "map_of kvs ''content''")
    case None
    with ev Message d ty show ?thesis
      by (simp add: handle_data_def field_subscript field_def ebind_def)
  next
    case (Some c)
    with ev Message d obtain cs where c: "c = JList cs" and wf: "list_all wf_entry cs"
      and ts: "ts = entry_texts cs"
      by (auto simp: field_def split: json.splits)
    with Some Message d ty show ?thesis
      by (simp add: handle_data_def field_def ebind_def message_texts_wf)
  qed
next
  case OtherEvent
  assume "is_event d ev"
  with OtherEvent obtain ty where "field d ''type'' = Some ty"
    "ty \<noteq> JStr ''content_block_start''" "ty \<noteq> JStr ''content_block_delta''"
    "ty \<noteq> JStr ''message_stop''" "ty \<noteq> JStr ''message''"
    by (auto split: option.splits)
  with OtherEvent show ?thesis
    by (simp add: handle_data_def field_subscript)
next
  case NoEvent
  assume "is_event d ev"
  with NoEvent show ?thesis by simp
qed

lemma emit_nil [simp]: "emit [] [] p = p"
  by (cases p) (simp add: emit_def)

text \<open>
  C1 (as amended). When every line of the response is blank, is text without the
  \<open>data: \<close> prefix, or carries a start with its text, a delta with its text, a stop, a
  complete message or an event of another type, the generator yields the fragments of
  these events in order, up to the first stop, writes no log entry and ends normally.
\<close>

theorem stream_fragments:
  "list_all2 (represents decode loads) raws events \<Longrightarrow>
   stream_lines decode loads raws = (fragments events, [], None)"
proof (induction raws events rule: list_all2_induct)
  case Nil
  then show ?case by simp
next
  case (Cons raw raws ev events)
  note IH = Cons.IH
  show ?case
  proof (cases "ev = NoEvent")
    case True
    with Cons.hyps(1) have "ignored_line decode raw" by (simp add: represents_def)
    with True IH show ?thesis
      by (auto simp: ignored_line_def split: option.splits)
  next
    case False
    with Cons.hyps(1) obtain d where d: "data_of decode loads raw = Some d" and ev: "is_event d ev"
      by (auto simp: represents_def split: option.splits)
    from d obtain line where l: "raw \<noteq> []" "decode raw = Some line" "startswith line ''data: ''"
      "loads (drop 6 line) = Some d"
      by (auto simp: data_of_def split: if_splits option.splits)
    show ?thesis
      using l IH handle_data_event[OF ev] False
      by (cases ev) (simp_all add: emit_def)
  qed
qed

theorem stream_fragments_witness:
  "stream_lines Some example_loads [he_line, llo_line, stop_line, ignored_delta_line]
     = ([JStr ''He'', JStr ''llo''], [], None)
   \<and> stream_lines Some example_loads [event_name_line, he_line, [], ping_line, message_line]
     = ([JStr ''He'', JStr ''hi''], [], None)"
  using
    stream_fragments
      [of Some example_loads "[he_line, llo_line, stop_line, ignored_delta_line]"
          "[ContentBlockDelta (JStr ''He''), ContentBlockDelta (JStr ''llo''), MessageStop,
            ContentBlockDelta (JStr ''ignored'')]"]
    stream_fragments
      [of Some example_loads "[event_name_line, he_line, [], ping_line, message_line]"
          "[NoEvent, ContentBlockDelta (JStr ''He''), NoEvent, OtherEvent,
            Message [JStr ''hi'']]"]
  by (simp add: represents_def data_of_def ignored_line_def example_loads_def delta_data_def
      message_data_def field_def text_in_def wf_entry_def entry_texts_def startswith_def
      he_line_def llo_line_def stop_line_def ignored_delta_line_def event_name_line_def
      ping_line_def message_line_def)

text \<open>
  A line whose event type is \<open>message\<close>, which is none of start, delta and stop, yields
  the text of its content entry.
\<close>

theorem message_event_yields_counterexample:
  "data_of Some example_loads message_line = Some message_data
   \<and> field message_data ''type'' = Some (JStr ''message'')
   \<and> yielded (stream_lines Some example_loads [message_line]) = [JStr ''hi'']"
  by (simp add: data_of_def example_loads_def message_data_def field_def startswith_def
      message_line_def handle_data_def ebind_def emit_def yielded_def)

lemma no_text_KeyError:
  "no_text (map_of kvs k) \<Longrightarrow>
   \<exists>key. ebind (subscript (JDict kvs) k) (\<lambda>b. subscript b ''text'') = Inl (KeyError key)"
  by (cases "map_of kvs k" rule: no_text.cases) (auto simp: ebind_def)

lemma message_texts_faulty:
  "faulty_entries cs \<Longrightarrow> \<exists>ys key. message_texts cs = (ys, Some (KeyError key))"
proof (induction cs)
  case Nil
  then show ?case by simp
next
  case (Cons c cs)
  then obtain e where c: "c = JDict e" by (cases c) auto
  show ?case
  proof (cases "map_of e ''type''")
    case None
    with c show ?thesis by simp
  next
    case (Some ty)
    show ?thesis
    proof (cases "ty = JStr ''text''")
      case False
      with Cons c Some show ?thesis by simp
    next
      case True
      show ?thesis
      proof (cases "map_of e ''text''")
        case None
        with c Some True show ?thesis by simp
      next
        case t: (Some t)
        with Cons.prems c Some True have "faulty_entries cs" by simp
        from Cons.IH[OF this] obtain ys key where "message_texts cs = (ys, Some (KeyError key))"
          by blast
        with c Some True t show ?thesis by simp
      qed
    qed
  qed
qed

lemma handle_data_lacks:
  assumes "lacks_field d"
  shows "\<exists>ys key. handle_data d = (ys, Throw (KeyError key))
           \<and> (field d ''type'' \<noteq> Some (JStr ''message'') \<longrightarrow> ys = [])"
proof -
  from assms obtain kvs where d: "d = JDict kvs"
    by (cases d) (auto simp: lacks_field_def)
  show ?thesis
  proof (cases "map_of kvs ''type''")
    case None
    with d show ?thesis by (simp add: handle_data_def)
  next
    case (Some ty)
    consider (start) "ty = JStr ''content_block_start''" "no_text (map_of kvs ''content_block'')"
      | (delta) "ty = JStr ''content_block_delta''" "no_text (map_of kvs ''delta'')"
      | (message) cs where "ty = JStr ''message''" "map_of kvs ''content'' = Some (JList cs)"
          "faulty_entries cs"
      using assms d Some
      by (auto simp: lacks_field_def split: if_splits option.splits json.splits)
    then show ?thesis
    proof cases
      case start
      from no_text_KeyError[OF start(2)] obtain key where
        "ebind (subscript (JDict kvs) ''content_block'') (\<lambda>b. subscript b ''text'')
           = Inl (KeyError key)"
        by blast
      with d Some start(1) show ?thesis by (simp add: handle_data_def)
    next
      case delta
      from no_text_KeyError[OF delta(2)] obtain key where
        "ebind (subscript (JDict kvs) ''delta'') (\<lambda>b. subscript b ''text'') = Inl (KeyError key)"
        by blast
      with d Some delta(1) show ?thesis by (simp add: handle_data_def)
    next
      case message
      from message_texts_faulty[OF message(3)] obtain ys key where
        "message_texts cs = (ys, Some (KeyError key))"
        by blast
      with d Some message(1,2) show ?thesis by (simp add: handle_data_def ebind_def field_def)
    qed
  qed
qed

lemma malformed_step:
  assumes "malformed decode loads raw"
  shows "\<exists>ys entry. stream_lines decode loads (raw # rest)
           = emit ys [entry] (stream_lines decode loads rest)
         \<and> (\<not> is_message_line decode loads raw \<longrightarrow> ys = [])"
proof -
  from assms obtain line where l: "raw \<noteq> []" "decode raw = Some line" "startswith line ''data: ''"
    and c: "case loads (drop 6 line) of None \<Rightarrow> True | Some d \<Rightarrow> lacks_field d"
    by (auto simp: malformed_def split: option.splits)
  show ?thesis
  proof (cases "loads (drop 6 line)")
    case None
    with l have "stream_lines decode loads (raw # rest)
        = emit [] [FailedToParse line] (stream_lines decode loads rest)"
      by simp
    then show ?thesis by blast
  next
    case (Some d)
    with c have "lacks_field d" by simp
    from handle_data_lacks[OF this] obtain ys key where
      h: "handle_data d = (ys, Throw (KeyError key))"
      and ys: "field d ''type'' \<noteq> Some (JStr ''message'') \<longrightarrow> ys = []"
      by blast
    from l Some h have "stream_lines decode loads (raw # rest)
        = emit ys [UnexpectedStructure (KeyError key) d] (stream_lines decode loads rest)"
      by simp
    moreover from l Some ys have "\<not> is_message_line decode loads raw \<longrightarrow> ys = []"
      by (simp add: is_message_line_def data_of_def)
    ultimately show ?thesis by blast
  qed
qed

lemma yielded_emit: "yielded (emit ys ls p) = ys @ yielded p"
  by (cases p) (simp add: emit_def yielded_def)

lemma raised_emit: "raised (emit ys ls p) = raised p"
  by (cases p) (simp add: emit_def raised_def)

lemma raised_stream_cong:
  assumes "raised (stream_lines decode loads xs) = raised (stream_lines decode loads ys)"
  shows "raised (stream_lines decode loads (pre @ xs))
       = raised (stream_lines decode loads (pre @ ys))"
proof (induction pre)
  case Nil
  with assms show ?case by simp
next
  case (Cons raw pre)
  then show ?case
    by (auto simp: raised_emit split: option.splits prod.splits flow.splits exn.splits)
qed

lemma yielded_stream_cong:
  assumes "yielded (stream_lines decode loads xs) = yielded (stream_lines decode loads ys)"
  shows "yielded (stream_lines decode loads (pre @ xs))
       = yielded (stream_lines decode loads (pre @ ys))"
proof (induction pre)
  case Nil
  with assms show ?case by simp
next
  case (Cons raw pre)
  then show ?case
    by (auto simp: yielded_emit split: option.splits prod.splits flow.splits exn.splits)
qed

text \<open>
  C5. A line with the prefix whose text is not JSON, or whose JSON object lacks an
  expected entry, writes a log entry and the generator goes on with the next line: the
  way it ends is that of the sequence without the malformed line, and every later event
  is yielded. The line itself yields nothing, so that the fragments are those of the
  sequence without it, unless it is a \<open>message\<close> event, which yields the text entries
  before the one that lacks an entry.
\<close>

theorem malformed_line_skipped:
  assumes "malformed decode loads raw"
  shows "(\<exists>ys entry. stream_lines decode loads (raw # rest)
            = emit ys [entry] (stream_lines decode loads rest)
          \<and> (\<not> is_message_line decode loads raw \<longrightarrow> ys = []))
       \<and> raised (stream_lines decode loads (pre @ raw # rest))
           = raised (stream_lines decode loads (pre @ rest))
       \<and> (\<not> is_message_line decode loads raw \<longrightarrow>
            yielded (stream_lines decode loads (pre @ raw # rest))
              = yielded (stream_lines decode loads (pre @ rest)))"
proof -
  from malformed_step[OF assms] obtain ys entry where
    step: "stream_lines decode loads (raw # rest) = emit ys [entry] (stream_lines decode loads rest)"
    and ys: "\<not> is_message_line decode loads raw \<longrightarrow> ys = []"
    by blast
  have "raised (stream_lines decode loads (raw # rest)) = raised (stream_lines decode loads rest)"
    by (simp only: step raised_emit)
  note r = raised_stream_cong[OF this, of pre]
  have "yielded (stream_lines decode loads (pre @ raw # rest))
      = yielded (stream_lines decode loads (pre @ rest))"
    if "\<not> is_message_line decode loads raw"
  proof -
    from that ys have "ys = []" by simp
    then have "yielded (stream_lines decode loads (raw # rest))
        = yielded (stream_lines decode loads rest)"
      by (simp only: step yielded_emit append_Nil)
    then show ?thesis by (rule yielded_stream_cong)
  qed
  with step ys r show ?thesis by blast
qed

theorem malformed_line_skipped_witness:
  "malformed Some example_loads not_json_line
   \<and> malformed Some example_loads missing_delta_line
   \<and> yielded (stream_lines Some example_loads [he_line, not_json_line, llo_line])
       = [JStr ''He'', JStr ''llo'']
   \<and> raised (stream_lines Some example_loads [he_line, not_json_line, llo_line]) = None
   \<and> yielded (stream_lines Some example_loads [he_line, missing_delta_line, llo_line])
       = [JStr ''He'', JStr ''llo'']
   \<and> raised (stream_lines Some example_loads [he_line, missing_delta_line, llo_line]) = None"
proof -
  have m: "malformed Some example_loads not_json_line"
    by (simp add: malformed_def startswith_def example_loads_def not_json_line_def)
  have m': "malformed Some example_loads missing_delta_line"
    by (simp add: malformed_def startswith_def example_loads_def missing_delta_line_def
        lacks_field_def)
  have n: "\<not> is_message_line Some example_loads not_json_line"
    by (simp add: is_message_line_def data_of_def startswith_def example_loads_def
        not_json_line_def)
  have n': "\<not> is_message_line Some example_loads missing_delta_line"
    by (simp add: is_message_line_def data_of_def startswith_def example_loads_def
        missing_delta_line_def field_def)
  have base: "stream_lines Some example_loads [he_line, llo_line]
      = ([JStr ''He'', JStr ''llo''], [], None)"
    by (simp add: example_loads_def delta_data_def startswith_def he_line_def llo_line_def
        handle_data_def ebind_def emit_def)
  note skip = malformed_line_skipped [OF m, where pre = "[he_line]" and rest = "[llo_line]"]
  note skip' = malformed_line_skipped [OF m', where pre = "[he_line]" and rest = "[llo_line]"]
  from skip n have
    "yielded (stream_lines Some example_loads ([he_line] @ not_json_line # [llo_line]))
       = yielded (stream_lines Some example_loads ([he_line] @ [llo_line]))"
    and
    "raised (stream_lines Some example_loads ([he_line] @ not_json_line # [llo_line]))
       = raised (stream_lines Some example_loads ([he_line] @ [llo_line]))"
    by blast+
  then have 1:
    "yielded (stream_lines Some example_loads [he_line, not_json_line, llo_line])
       = [JStr ''He'', JStr ''llo'']"
    "raised (stream_lines Some example_loads [he_line, not_json_line, llo_line]) = None"
    by (simp_all only: append_Cons append_Nil base yielded_def raised_def fst_conv snd_conv)
  from skip' n' have
    "yielded (stream_lines Some example_loads ([he_line] @ missing_delta_line # [llo_line]))
       = yielded (stream_lines Some example_loads ([he_line] @ [llo_line]))"
    and
    "raised (stream_lines Some example_loads ([he_line] @ missing_delta_line # [llo_line]))
       = raised (stream_lines Some example_loads ([he_line] @ [llo_line]))"
    by blast+
  then have 2:
    "yielded (stream_lines Some example_loads [he_line, missing_delta_line, llo_line])
       = [JStr ''He'', JStr ''llo'']"
    "raised (stream_lines Some example_loads [he_line, missing_delta_line, llo_line]) = None"
    by (simp_all only: append_Cons append_Nil base yielded_def raised_def fst_conv snd_conv)
  from m m' 1 2 show ?thesis by blast
qed

section \<open>Processed images\<close>

lemma split_on_nonempty: "split_on c s \<noteq> []"
  by (induction s) (auto split: list.splits)

lemma startswith_append: "startswith u p \<Longrightarrow> \<exists>r. u = p @ r"
  by (metis append_take_drop_id startswith_def)

lemma split_on_prefix:
  "c \<notin> set p \<Longrightarrow> split_on c (p @ c # rest) = p # split_on c rest"
  by (induction p) auto

lemma index1_second: "ys \<noteq> [] \<Longrightarrow> index1 (x # ys) = Inr (hd ys)"
  by (cases ys) auto

lemma index1_data_image:
  "\<exists>seg. index1 (split_on CHR '':'' (takeWhile (\<lambda>x. x \<noteq> CHR '','') (''data:image'' @ r))) = Inr seg"
proof -
  let ?t = "takeWhile (\<lambda>x. x \<noteq> CHR '','') r"
  have "takeWhile (\<lambda>x. x \<noteq> CHR '','') (''data:image'' @ r) = ''data'' @ CHR '':'' # (''image'' @ ?t)"
    by simp
  moreover have "split_on CHR '':'' (''data'' @ CHR '':'' # (''image'' @ ?t))
      = ''data'' # split_on CHR '':'' (''image'' @ ?t)"
    by (rule split_on_prefix) simp
  ultimately show ?thesis
    by (simp only: index1_second[OF split_on_nonempty]) blast
qed

lemma process_image_url:
  assumes "image_url_of item = Inr (JStr u)" and "\<not> startswith u ''data:image''"
  shows "process_image item = Inr (url_part u)"
  using assms by (simp add: process_image_def ebind_def url_part_def)

lemma process_image_base64:
  assumes "image_url_of item = Inr (JStr u)" and "startswith u ''data:image''"
    and "CHR '','' \<in> set u"
  shows "\<exists>mt. process_image item = Inr (base64_part mt (after_comma u))"
proof -
  from startswith_append[OF assms(2)] obtain r where u: "u = ''data:image'' @ r" by blast
  from index1_data_image[of r] obtain seg where
    "index1 (split_on CHR '':'' (takeWhile (\<lambda>x. x \<noteq> CHR '','') u)) = Inr seg"
    using u by auto
  moreover obtain mt where "index0 (split_on CHR '';'' seg) = Inr mt"
    using split_on_nonempty[of "CHR '';''" seg] by (cases "split_on CHR '';'' seg") auto
  ultimately show ?thesis using assms
    by (simp add: process_image_def ebind_def split_once_def unpack2_def base64_part_def
        after_comma_def)
qed

lemma process_image_no_comma:
  assumes "image_url_of item = Inr (JStr u)" and "startswith u ''data:image''"
    and "CHR '','' \<notin> set u"
  shows "process_image item = Inl (ValueError ''not enough values to unpack (expected 2, got 1)'')"
  using assms by (simp add: process_image_def ebind_def split_once_def unpack2_def)

lemma image_size_of_url: "image_size_of (url_part u) = Inr 0"
  by (simp add: image_size_of_def url_part_def ebind_def)

lemma image_size_of_base64:
  "image_size_of (base64_part mt d) =
     (if estimate d > per_image_limit then Inl image_size_error else Inr (estimate d))"
  by (simp add: image_size_of_def base64_part_def ebind_def)

text \<open>
  C10 (as amended). For an image part whose url is a string, with a comma when it starts
  with \<open>data:image\<close>, the processed image has the base64 source kind if and only if the
  url starts with \<open>data:image\<close>, its data being the text after the first comma; any
  other url, a \<open>data:\<close> URI of another media type included, gives the url source kind
  with the url unchanged, which adds zero to the size accounting.
\<close>

theorem base64_iff_data_image_prefix:
  assumes "image_url_of item = Inr (JStr u)" and "wf_url u"
  shows "(source_kind (process_image item) = Some (JStr ''base64'') \<longleftrightarrow> startswith u ''data:image'')
       \<and> (startswith u ''data:image'' \<longrightarrow>
            (\<exists>mt. process_image item = Inr (base64_part mt (after_comma u))))
       \<and> (\<not> startswith u ''data:image'' \<longrightarrow>
            process_image item = Inr (url_part u) \<and> image_size_of (url_part u) = Inr 0)"
proof (cases "startswith u ''data:image''")
  case True
  with assms(2) have "CHR '','' \<in> set u" by (simp add: wf_url_def)
  from process_image_base64[OF assms(1) True this] obtain mt where
    "process_image item = Inr (base64_part mt (after_comma u))" by blast
  with True show ?thesis
    by (auto simp: source_kind_def base64_part_def field_def)
next
  case False
  with process_image_url[OF assms(1) False] show ?thesis
    by (simp add: source_kind_def url_part_def field_def image_size_of_url[unfolded url_part_def])
qed

theorem base64_iff_data_image_prefix_witness:
  "process_image (image_item ''data:image/png;base64,AAAA'') = Inr (base64_part ''image/png'' ''AAAA'')
   \<and> process_image (image_item ''data:text/plain;base64,AAAA'') = Inr (url_part ''data:text/plain;base64,AAAA'')
   \<and> image_size_of (url_part ''data:text/plain;base64,AAAA'') = Inr 0
   \<and> process_image (image_item ''https://example.com/a.png'') = Inr (url_part ''https://example.com/a.png'')"
proof -
  have a: "image_url_of (image_item ''data:image/png;base64,AAAA'') = Inr (JStr ''data:image/png;base64,AAAA'')"
    and b: "image_url_of (image_item ''data:text/plain;base64,AAAA'') = Inr (JStr ''data:text/plain;base64,AAAA'')"
    and c: "image_url_of (image_item ''https://example.com/a.png'') = Inr (JStr ''https://example.com/a.png'')"
    by (simp_all add: image_url_of_def image_item_def ebind_def)
  have wa: "wf_url ''data:image/png;base64,AAAA''" and sa: "startswith ''data:image/png;base64,AAAA'' ''data:image''"
    and wb: "wf_url ''data:text/plain;base64,AAAA''" and sb: "\<not> startswith ''data:text/plain;base64,AAAA'' ''data:image''"
    and wc: "wf_url ''https://example.com/a.png''" and sc: "\<not> startswith ''https://example.com/a.png'' ''data:image''"
    by (simp_all add: wf_url_def startswith_def)
  from base64_iff_data_image_prefix[OF a wa] sa obtain mt where
    "process_image (image_item ''data:image/png;base64,AAAA'') = Inr (base64_part mt (after_comma ''data:image/png;base64,AAAA''))"
    by blast
  moreover have "process_image (image_item ''data:image/png;base64,AAAA'') = Inr (base64_part ''image/png'' ''AAAA'')"
    by (simp add: process_image_def image_url_of_def image_item_def ebind_def startswith_def
        split_once_def unpack2_def base64_part_def)
  moreover note base64_iff_data_image_prefix[OF b wb] base64_iff_data_image_prefix[OF c wc] sb sc
  ultimately show ?thesis by blast
qed

text \<open>
  A url that starts with \<open>data:image\<close> and has no comma is not converted: the unpacking of
  the split raises.
\<close>

theorem data_image_without_comma_counterexample:
  "startswith ''data:image/png'' ''data:image''
   \<and> process_image (image_item ''data:image/png'')
       = Inl (ValueError ''not enough values to unpack (expected 2, got 1)'')"
  by (simp add: process_image_def image_item_def image_url_of_def ebind_def startswith_def
      split_once_def unpack2_def)

section \<open>The counters of the translation\<close>

lemma limits: "per_image_limit = 20971520" "real MAX_TOTAL_IMAGE_SIZE = 104857600"
  "MAX_IMAGES_PER_CALL = 5"
  by (simp_all add: per_image_limit_def MAX_TOTAL_IMAGE_SIZE_def MAX_IMAGES_PER_CALL_def)

lemma image_size_of_bound:
  "image_size_of p = Inr s \<Longrightarrow> 0 \<le> s \<and> s \<le> per_image_limit"
  by (auto simp: image_size_of_def ebind_def estimate_def limits
      split: sum.splits if_splits json.splits)

lemma subscript_not_ValueError: "subscript j k \<noteq> Inl (ValueError m)"
  by (cases j) (auto split: option.splits)

lemma index1_not_ValueError: "index1 xs \<noteq> Inl (ValueError m)"
  by (cases xs rule: index1.cases) auto

lemma index0_not_ValueError: "index0 xs \<noteq> Inl (ValueError m)"
  by (cases xs) auto

lemma image_size_of_not_total: "image_size_of p \<noteq> Inl total_size_error"
  by (auto simp: image_size_of_def ebind_def total_size_error_def image_size_error_def
      subscript_not_ValueError split: sum.splits if_splits json.splits)

lemma process_image_not_total: "process_image item \<noteq> Inl total_size_error"
  by (auto simp: process_image_def image_url_of_def ebind_def total_size_error_def unpack2_def
      subscript_not_ValueError index1_not_ValueError index0_not_ValueError
      split: sum.splits if_splits json.splits list.splits)

lemma process_items_accounted:
  "accounted st \<Longrightarrow>
   process_items items st \<noteq> Inl total_size_error
   \<and> (\<forall>st'. process_items items st = Inr st' \<longrightarrow> accounted st')"
proof (induction items st rule: process_items.induct)
  case (1 st)
  then show ?case by simp
next
  case (2 item items pc cnt tot)
  from "2.prems" have inv: "cnt \<le> 5" "0 \<le> tot" "tot \<le> real cnt * 20971520"
    by (simp_all add: accounted_def limits)
  show ?case
  proof (cases "subscript item ''type''")
    case (Inl e)
    then show ?thesis using subscript_not_ValueError[of item "''type''"]
      by (auto simp: total_size_error_def)
  next
    case (Inr ty)
    consider (textual) "ty = JStr ''text''"
      | (image) "ty \<noteq> JStr ''text''" "ty = JStr ''image_url''"
      | (other) "ty \<noteq> JStr ''text''" "ty \<noteq> JStr ''image_url''"
      by blast
    then show ?thesis
    proof cases
      case textual
      show ?thesis
      proof (cases "subscript item ''text''")
        case (Inl e)
        with Inr textual show ?thesis using subscript_not_ValueError[of item "''text''"]
          by (auto simp: total_size_error_def)
      next
        case t: (Inr t)
        have "accounted (pc @ [JDict [(''type'', JStr ''text''), (''text'', t)]], cnt, tot)"
          using "2.prems" by (simp add: accounted_def)
        from "2.IH"(1)[OF Inr textual t this] Inr textual t show ?thesis by simp
      qed
    next
      case other
      from "2.IH"(3)[OF Inr other "2.prems"] Inr other show ?thesis by simp
    next
      case image
      show ?thesis
      proof (cases "cnt \<ge> MAX_IMAGES_PER_CALL")
        case True
        with Inr image show ?thesis
          by (simp add: image_limit_error_def total_size_error_def)
      next
        case False
        then have lt: "cnt < 5" by (simp add: limits)
        show ?thesis
        proof (cases "process_image item")
          case (Inl e)
          with Inr image False process_image_not_total[of item] show ?thesis by auto
        next
          case pi: (Inr processed_image)
          show ?thesis
          proof (cases "image_size_of processed_image")
            case (Inl e)
            with Inr image False pi image_size_of_not_total[of processed_image] show ?thesis
              by auto
          next
            case sz: (Inr image_size)
            from image_size_of_bound[OF sz] have b: "0 \<le> image_size" "image_size \<le> 20971520"
              by (simp_all add: limits)
            from lt have "real cnt \<le> 4" by simp
            with inv b have le: "tot + image_size \<le> 104857600"
              and le': "tot + image_size \<le> real (cnt + 1) * 20971520"
              by (simp_all add: algebra_simps)
            then have notgt: "\<not> tot + image_size > real MAX_TOTAL_IMAGE_SIZE"
              by (simp add: limits)
            have "accounted (pc @ [processed_image], cnt + 1, tot + image_size)"
              using lt inv b le' by (simp add: accounted_def limits)
            from "2.IH"(2)[OF Inr image(1) image(2) False pi sz notgt this]
            show ?thesis using Inr image False pi sz notgt by simp
          qed
        qed
      qed
    qed
  qed
qed

lemma size_of_url_nonneg: "0 \<le> size_of_url u"
  by (simp add: size_of_url_def estimate_def)

lemma image_step:
  assumes ty: "field item ''type'' = Some (JStr ''image_url'')"
    and wf: "wf_part item" and lt: "cnt < 5" and acc: "accounted (pc, cnt, tot)"
  shows "\<exists>p. process_items (item # items) (pc, cnt, tot) =
           (if within_limit item
            then process_items items (pc @ [p], cnt + 1, tot + size_of_url (url_of item))
            else Inl image_size_error)"
proof -
  let ?u = "url_of item"
  from ty wf have u: "image_url_of item = Inr (JStr ?u)" and wfu: "wf_url ?u"
    by (simp_all add: wf_part_def)
  from ty have sub: "subscript item ''type'' = Inr (JStr ''image_url'')"
    by (rule field_subscript)
  from acc have inv: "0 \<le> tot" "tot \<le> real cnt * 20971520"
    by (simp_all add: accounted_def limits)
  from lt have c4: "real cnt \<le> 4" by simp
  have nolimit: "\<not> cnt \<ge> MAX_IMAGES_PER_CALL" using lt by (simp add: limits)
  show ?thesis
  proof (cases "startswith ?u ''data:image''")
    case False
    from process_image_url[OF u False] have pi: "process_image item = Inr (url_part ?u)" .
    have "\<not> tot + 0 > real MAX_TOTAL_IMAGE_SIZE" using inv c4 by (simp add: limits)
    with sub nolimit pi False show ?thesis
      by (auto simp: image_size_of_url size_of_url_def within_limit_def limits)
  next
    case True
    with wfu have "CHR '','' \<in> set ?u" by (simp add: wf_url_def)
    from process_image_base64[OF u True this] obtain mt where
      pi: "process_image item = Inr (base64_part mt (after_comma ?u))" by blast
    show ?thesis
    proof (cases "within_limit item")
      case False
      with True have "estimate (after_comma ?u) > per_image_limit"
        by (simp add: within_limit_def size_of_url_def)
      with sub nolimit pi False show ?thesis
        by (simp add: image_size_of_base64)
    next
      case wl: True
      with True have le: "estimate (after_comma ?u) \<le> 20971520"
        by (simp add: within_limit_def size_of_url_def limits)
      with inv c4 have "\<not> tot + estimate (after_comma ?u) > real MAX_TOTAL_IMAGE_SIZE"
        by (simp add: limits)
      with sub nolimit pi wl True le show ?thesis
        by (auto simp: image_size_of_base64 size_of_url_def limits)
    qed
  qed
qed

lemma other_step:
  assumes wf: "wf_part item" and ni: "\<not> is_image_part item"
  shows "\<exists>pc'. process_items (item # items) (pc, cnt, tot) = process_items items (pc', cnt, tot)"
proof -
  from wf obtain ty where ty: "field item ''type'' = Some ty"
    by (auto simp: wf_part_def split: option.splits)
  note sub = field_subscript[OF ty]
  show ?thesis
  proof (cases "ty = JStr ''text''")
    case True
    with wf ty obtain t where "field item ''text'' = Some t" by (auto simp: wf_part_def)
    from field_subscript[OF this] sub True show ?thesis by auto
  next
    case False
    moreover from ni ty have "ty \<noteq> JStr ''image_url''" by (simp add: is_image_part_def)
    ultimately show ?thesis using sub by auto
  qed
qed

lemma accounted_step:
  assumes "accounted (pc, cnt, tot)" and "cnt < 5" and "s \<le> per_image_limit" and "0 \<le> s"
  shows "accounted (pc', cnt + 1, tot + s)"
  using assms by (simp add: accounted_def limits algebra_simps)

lemma accounted_pc: "accounted (pc, cnt, tot) \<Longrightarrow> accounted (pc', cnt, tot)"
  by (simp add: accounted_def)

lemma verdict_Nil: "cnt \<le> 5 \<Longrightarrow> verdict cnt [] = None"
  by (simp add: verdict_def)

lemma verdict_full: "cnt \<ge> 5 \<Longrightarrow> verdict cnt (x # xs) = Some image_limit_error"
  by (simp add: verdict_def)

lemma verdict_Cons:
  "cnt < 5 \<Longrightarrow> verdict cnt (x # xs) =
     (if within_limit x then verdict (cnt + 1) xs else Some image_size_error)"
proof -
  assume "cnt < 5"
  then obtain k where k: "5 - cnt = Suc k" "5 - (cnt + 1) = k"
    by (cases "5 - cnt") auto
  then show ?thesis by (simp add: verdict_def)
qed

lemma verdict_append:
  "verdict cnt (xs @ ys) =
     (case verdict cnt xs of Some e \<Rightarrow> Some e | None \<Rightarrow> verdict (cnt + length xs) ys)"
  by (auto simp: verdict_def split: if_splits)

lemma process_items_verdict:
  "list_all wf_part items \<Longrightarrow> accounted (pc, cnt, tot) \<Longrightarrow>
   (case verdict cnt (filter is_image_part items) of
      Some e \<Rightarrow> process_items items (pc, cnt, tot) = Inl e
    | None \<Rightarrow> (\<exists>pc' tot'. process_items items (pc, cnt, tot)
                 = Inr (pc', cnt + length (filter is_image_part items), tot')))"
proof (induction items arbitrary: pc cnt tot)
  case Nil
  then have "cnt \<le> 5" by (simp add: accounted_def limits)
  then show ?case by (simp add: verdict_Nil)
next
  case (Cons item items)
  from Cons.prems(1) have wf: "wf_part item" and wfs: "list_all wf_part items" by simp_all
  show ?case
  proof (cases "is_image_part item")
    case False
    from other_step[OF wf False, of items pc cnt tot] obtain pc' where
      step: "process_items (item # items) (pc, cnt, tot) = process_items items (pc', cnt, tot)"
      by blast
    from Cons.IH[OF wfs accounted_pc[OF Cons.prems(2)], of pc'] False
    show ?thesis unfolding step by (simp cong: option.case_cong)
  next
    case True
    then have ty: "field item ''type'' = Some (JStr ''image_url'')"
      by (simp add: is_image_part_def)
    note sub = field_subscript[OF ty]
    show ?thesis
    proof (cases "cnt < 5")
      case False
      with sub have "process_items (item # items) (pc, cnt, tot) = Inl image_limit_error"
        by (simp add: limits)
      with False True show ?thesis by (simp add: verdict_full cong: option.case_cong)
    next
      case lt: True
      from image_step[OF ty wf lt Cons.prems(2), of items] obtain p where
        step: "process_items (item # items) (pc, cnt, tot) =
           (if within_limit item
            then process_items items (pc @ [p], cnt + 1, tot + size_of_url (url_of item))
            else Inl image_size_error)"
        by blast
      show ?thesis
      proof (cases "within_limit item")
        case False
        with step True lt show ?thesis by (simp add: verdict_Cons cong: option.case_cong)
      next
        case wl: True
        then have "size_of_url (url_of item) \<le> per_image_limit" by (simp add: within_limit_def)
        from accounted_step[OF Cons.prems(2) lt this size_of_url_nonneg]
        have acc: "accounted (pc @ [p], cnt + 1, tot + size_of_url (url_of item))" .
        from Cons.IH[OF wfs acc] step wl True lt show ?thesis
          by (simp add: verdict_Cons cong: option.case_cong)
      qed
    qed
  qed
qed

lemma wf_message_dict:
  "wf_message m \<Longrightarrow> \<exists>kvs r. m = JDict kvs \<and> map_of kvs ''role'' = Some r"
  by (cases m) (auto simp: wf_message_def split: sum.splits option.splits)

lemma process_content_wf:
  assumes "wf_message m"
  shows "process_content m cnt tot =
     (case field m ''content'' of
        Some (JList items) \<Rightarrow> process_items items ([], cnt, tot)
      | Some c \<Rightarrow> Inr ([JDict [(''type'', JStr ''text''), (''text'', c)]], cnt, tot)
      | None \<Rightarrow> Inr ([JDict [(''type'', JStr ''text''), (''text'', JStr [])]], cnt, tot))"
proof -
  from wf_message_dict[OF assms] obtain kvs r where "m = JDict kvs" by blast
  then show ?thesis
    by (simp add: process_content_def ebind_def field_def split: option.splits json.splits)
qed

lemma process_content_verdict:
  assumes "wf_chat_message m" and "accounted (pm, cnt, tot)"
  shows "(case verdict cnt (filter is_image_part (parts_of m)) of
      Some e \<Rightarrow> process_content m cnt tot = Inl e
    | None \<Rightarrow> (\<exists>pc' tot'. process_content m cnt tot
                 = Inr (pc', cnt + length (filter is_image_part (parts_of m)), tot')))"
proof -
  from assms have wf: "wf_message m" and parts: "list_all wf_part (parts_of m)"
    by (simp_all add: wf_chat_message_def)
  from assms(2) have c5: "cnt \<le> 5" by (simp add: accounted_def limits)
  show ?thesis
  proof (cases "\<exists>items. field m ''content'' = Some (JList items)")
    case True
    then obtain items where c: "field m ''content'' = Some (JList items)" by blast
    then have p: "parts_of m = items" by (simp add: parts_of_def)
    from process_items_verdict[OF parts[unfolded p] accounted_pc[OF assms(2)], of "[]"]
    show ?thesis by (simp add: process_content_wf[OF wf] c p cong: option.case_cong)
  next
    case False
    then have p: "parts_of m = []"
      by (auto simp: parts_of_def split: option.splits json.splits)
    from False show ?thesis
      by (auto simp: process_content_wf[OF wf] p verdict_Nil[OF c5] split: option.splits json.splits)
  qed
qed

lemma process_content_accounted:
  assumes "accounted (pm, cnt, tot)" and "process_content m cnt tot = Inr st'"
  shows "accounted st'"
proof -
  have acc: "accounted ([], cnt, tot)" by (rule accounted_pc[OF assms(1)])
  from assms(2) show ?thesis
    using process_items_accounted[OF acc] assms(1)
    by (auto simp: process_content_def ebind_def accounted_def
        split: sum.splits json.splits)
qed

lemma images_of_Cons: "images_of (m # ms) = filter is_image_part (parts_of m) @ images_of ms"
  by (simp add: images_of_def)

lemma process_messages_verdict:
  "list_all wf_chat_message ms \<Longrightarrow> accounted (pm, cnt, tot) \<Longrightarrow>
   (case verdict cnt (images_of ms) of
      Some e \<Rightarrow> process_messages ms (pm, cnt, tot) = Inl e
    | None \<Rightarrow> (\<exists>pm' tot'. process_messages ms (pm, cnt, tot)
                 = Inr (pm', cnt + length (images_of ms), tot')))"
proof (induction ms arbitrary: pm cnt tot)
  case Nil
  then have "cnt \<le> 5" by (simp add: accounted_def limits)
  then show ?case by (simp add: verdict_Nil images_of_def)
next
  case (Cons m ms)
  from Cons.prems(1) have wf: "wf_chat_message m" and wfs: "list_all wf_chat_message ms"
    by simp_all
  let ?imgs = "filter is_image_part (parts_of m)"
  note pc = process_content_verdict[OF wf Cons.prems(2)]
  show ?case
  proof (cases "verdict cnt ?imgs")
    case (Some e)
    with pc have "process_content m cnt tot = Inl e" by simp
    with Some show ?thesis by (simp add: images_of_Cons verdict_append cong: option.case_cong)
  next
    case None
    with pc obtain pc' tot' where
      c: "process_content m cnt tot = Inr (pc', cnt + length ?imgs, tot')" by auto
    from process_content_accounted[OF Cons.prems(2) c]
    have acc: "accounted (pc', cnt + length ?imgs, tot')" .
    from wf obtain r where r: "subscript m ''role'' = Inr r"
      using wf_message_dict[of m] by (auto simp: wf_chat_message_def)
    have acc': "accounted (pm @ [JDict [(''role'', r), (''content'', JList pc')]],
        cnt + length ?imgs, tot')"
      by (rule accounted_pc[OF acc])
    from Cons.IH[OF wfs acc'] c r None show ?thesis
      by (simp add: images_of_Cons verdict_append add.assoc cong: option.case_cong)
  qed
qed

lemma py_get_not_ValueError: "py_get j k d \<noteq> Inl (ValueError m)"
  by (cases j) auto

lemma process_content_not_total:
  assumes "accounted (pm, cnt, tot)"
  shows "process_content m cnt tot \<noteq> Inl total_size_error"
proof -
  have acc: "accounted ([], cnt, tot)" by (rule accounted_pc[OF assms])
  have "process_items items ([], cnt, tot) \<noteq> Inl total_size_error" for items
    using process_items_accounted[OF acc] by blast
  then show ?thesis
    using py_get_not_ValueError[of m "''content''"]
    by (auto simp: process_content_def ebind_def total_size_error_def
        split: sum.splits json.splits)
qed

lemma process_messages_accounted:
  "accounted st \<Longrightarrow>
   process_messages ms st \<noteq> Inl total_size_error"
proof (induction ms st rule: process_messages.induct)
  case (1 st)
  then show ?case by simp
next
  case (2 m rest pm cnt tot)
  have acc0: "accounted ([], cnt, tot)" by (rule accounted_pc[OF "2.prems"])
  show ?case
  proof (cases "process_content m cnt tot")
    case (Inl e)
    then have "e \<noteq> total_size_error"
      using process_content_not_total[OF "2.prems", of m] by auto
    with Inl show ?thesis by simp
  next
    case (Inr st')
    obtain pc' cnt' tot' where st': "st' = (pc', cnt', tot')" by (cases st') auto
    from process_content_accounted[OF "2.prems" Inr] st'
    have acc: "accounted (pc', cnt', tot')" by simp
    show ?thesis
    proof (cases "subscript m ''role''")
      case (Inl e)
      with Inr st' subscript_not_ValueError[of m "''role''"] show ?thesis
        by (auto simp: total_size_error_def)
    next
      case r: (Inr r)
      from "2.IH"[OF Inr[unfolded st'] refl refl r accounted_pc[OF acc]] Inr st' r
      show ?thesis by simp
    qed
  qed
qed

section \<open>Translation of a request\<close>

lemma build_payload_succeeds:
  assumes "body = JDict kvs" and "map_of kvs ''model'' = Some (JStr m)"
    and "MAX_TOTAL_TOKENS v = Some n"
  shows "\<exists>p. build_payload v body sys pm = Inr p"
  using assms by (simp add: build_payload_def ebind_def)

lemma translate_wf:
  assumes "wf_request v body"
  shows "translate v body =
     ebind (process_messages (filter (\<lambda>m. \<not> is_system m) (messages_of body)) ([], 0, 0))
       (\<lambda>(pm, _, _). build_payload v body (last_system_text (messages_of body)) pm)"
proof -
  from assms obtain ms where ms: "field body ''messages'' = Some (JList ms)"
    and wf: "list_all wf_chat_message ms"
    by (auto simp: wf_request_def split: option.splits json.splits)
  from wf have "\<forall>m\<in>set ms. wf_message m"
    by (simp add: list_all_iff wf_chat_message_def)
  from extract_loop_spec[OF this, of JNull "[]"]
  have ex: "extract_system_message (JList ms)
      = Inr (last_system_text ms, filter (\<lambda>m. \<not> is_system m) ms)"
    by (simp add: extract_system_message_def ebind_def last_system_text_def)
  from assms have key: "\<not> (case ANTHROPIC_API_KEY v of None \<Rightarrow> True | Some k \<Rightarrow> k = [])"
    by (auto simp: wf_request_def key_set_def split: option.splits)
  show ?thesis
    using key field_subscript[OF ms] ex ms
    by (simp add: translate_def ebind_def messages_of_def)
qed

lemma accounted_start: "accounted ([], 0, 0)"
  by (simp add: accounted_def)

lemma translate_verdict:
  assumes "wf_request v body"
  shows "(case verdict 0 (counted_images body) of
            Some e \<Rightarrow> translate v body = Inl e
          | None \<Rightarrow> (\<exists>p. translate v body = Inr p))"
proof -
  let ?fw = "filter (\<lambda>m. \<not> is_system m) (messages_of body)"
  from assms obtain ms where ms: "field body ''messages'' = Some (JList ms)"
    and wf: "list_all wf_chat_message ms"
    by (auto simp: wf_request_def split: option.splits json.splits)
  then have "list_all wf_chat_message ?fw"
    by (simp add: messages_of_def list_all_iff)
  note pm = process_messages_verdict[OF this accounted_start]
  from assms obtain kvs m n where body: "body = JDict kvs" "map_of kvs ''model'' = Some (JStr m)"
    "MAX_TOTAL_TOKENS v = Some n"
    by (cases body) (auto simp: wf_request_def field_def split: option.splits json.splits)
  show ?thesis
  proof (cases "verdict 0 (counted_images body)")
    case (Some e)
    with pm show ?thesis
      by (simp add: translate_wf[OF assms] counted_images_def ebind_def)
  next
    case None
    with pm obtain pm' tot' where
      "process_messages ?fw ([], 0, 0) = Inr (pm', 0 + length (images_of ?fw), tot')"
      by (auto simp: counted_images_def)
    with None build_payload_succeeds[OF body, of "last_system_text (messages_of body)" pm']
    show ?thesis
      by (simp add: translate_wf[OF assms] ebind_def)
  qed
qed

lemma handler_ValueError: "handler (ValueError m) = ReturnsError ''Error: '' (ValueError m)"
  by (simp add: handler_def)

lemma pipe_translate_fails:
  "translate v body = Inl e \<Longrightarrow> anthropic_pipe v post body = (handler e, [])"
  by (simp add: anthropic_pipe_def)

text \<open>
  C2 (as amended). For a request that the translation can read, the image parts counted
  are those of the non-system messages. With more than five of them \<open>pipe\<close> returns an
  error string and sends no HTTP request; the error is the image-limit error when the
  first five images are within the bound of one image, and the size error of an earlier
  image otherwise. With at most five, each within the bound, the translation succeeds.
\<close>

theorem image_limit_enforced:
  assumes "wf_request v body"
  shows "(length (counted_images body) > 5 \<longrightarrow>
            (\<exists>e. anthropic_pipe v post body = (ReturnsError ''Error: '' e, [])
               \<and> (e = image_limit_error \<or> e = image_size_error)))
       \<and> (length (counted_images body) > 5
            \<and> list_all within_limit (take 5 (counted_images body)) \<longrightarrow>
            anthropic_pipe v post body = (ReturnsError ''Error: '' image_limit_error, []))
       \<and> (length (counted_images body) \<le> 5 \<and> list_all within_limit (counted_images body) \<longrightarrow>
            (\<exists>p. translate v body = Inr p))"
proof -
  note tv = translate_verdict[OF assms]
  have a: "anthropic_pipe v post body = (ReturnsError ''Error: '' e, [])"
    if "translate v body = Inl e" "e = image_limit_error \<or> e = image_size_error" for e
    using that pipe_translate_fails[of v body e post]
    by (auto simp: image_limit_error_def image_size_error_def handler_ValueError)
  show ?thesis
  proof (intro conjI impI)
    assume "length (counted_images body) > 5"
    with tv a show "\<exists>e. anthropic_pipe v post body = (ReturnsError ''Error: '' e, [])
               \<and> (e = image_limit_error \<or> e = image_size_error)"
      by (auto simp: verdict_def split: if_splits)
  next
    assume "length (counted_images body) > 5
            \<and> list_all within_limit (take 5 (counted_images body))"
    with tv a show "anthropic_pipe v post body = (ReturnsError ''Error: '' image_limit_error, [])"
      by (auto simp: verdict_def split: if_splits)
  next
    assume "length (counted_images body) \<le> 5 \<and> list_all within_limit (counted_images body)"
    with tv show "\<exists>p. translate v body = Inr p"
      by (auto simp: verdict_def split: if_splits)
  qed
qed

lemmas example_defs =
  request_body_def user_message_def system_message_def url_image_def image_item_def
  example_valves_def default_valves_def

lemmas wf_defs =
  wf_request_def key_set_def field_def wf_chat_message_def wf_message_def parts_of_def
  wf_part_def url_of_def image_url_of_def ebind_def wf_url_def startswith_def

lemmas count_defs =
  counted_images_def messages_of_def images_of_def is_system_def is_image_part_def
  parts_of_def field_def

lemma within_limit_url_image: "within_limit url_image"
  by (simp add: within_limit_def size_of_url_def url_of_def image_url_of_def ebind_def
      startswith_def limits example_defs)

theorem image_limit_enforced_witness:
  "anthropic_pipe example_valves ok_transport six_images_body
     = (ReturnsError ''Error: '' image_limit_error, [])
   \<and> (\<exists>p. translate example_valves one_image_body = Inr p)"
proof -
  have wf6: "wf_request example_valves six_images_body"
    by (simp add: six_images_body_def example_defs wf_defs)
  have c6: "counted_images six_images_body
      = [url_image, url_image, url_image, url_image, url_image, url_image]"
    by (simp add: six_images_body_def example_defs count_defs)
  have wf1: "wf_request example_valves one_image_body"
    by (simp add: one_image_body_def example_defs wf_defs)
  have c1: "counted_images one_image_body = [url_image]"
    by (simp add: one_image_body_def example_defs count_defs)
  from image_limit_enforced[OF wf6, of ok_transport] c6 within_limit_url_image
  have "anthropic_pipe example_valves ok_transport six_images_body
     = (ReturnsError ''Error: '' image_limit_error, [])"
    by simp
  moreover from image_limit_enforced[OF wf1, of ok_transport] c1 within_limit_url_image
  have "\<exists>p. translate example_valves one_image_body = Inr p"
    by simp
  ultimately show ?thesis by blast
qed

lemma process_image_url_image: "process_image url_image = Inr (url_part ''https://example.com/a.png'')"
  by (simp add: process_image_def image_url_of_def ebind_def startswith_def url_part_def example_defs)

text \<open>
  Six image parts in a system message are not counted: the request is sent.
\<close>

theorem system_images_not_counted_counterexample:
  "length (images_of (messages_of six_in_system_body)) = 6
   \<and> fst (anthropic_pipe example_valves ok_transport six_in_system_body) = Returns (JStr ''ok'')
   \<and> length (snd (anthropic_pipe example_valves ok_transport six_in_system_body)) = 1"
  by (simp add: six_in_system_body_def example_defs count_defs anthropic_pipe_def translate_def
      extract_system_message_def process_content_def build_payload_def ebind_def
      non_stream_response_def ok_transport_def ok_response_def first_text_def Let_def)

section \<open>The payload\<close>

lemma handler_returns: "\<exists>s. handler e = ReturnsError s e"
  by (simp add: handler_def)

lemma build_payload_fields:
  assumes "build_payload v body sys pm = Inr p"
  shows "\<exists>n. MAX_TOTAL_TOKENS v = Some n
     \<and> field p ''max_tokens'' = Some (get_or body ''max_tokens'' (JInt n))
     \<and> field p ''temperature'' = Some (get_or body ''temperature'' (JFloat 0.8))
     \<and> field p ''top_k'' = Some (get_or body ''top_k'' (JInt 40))
     \<and> field p ''top_p'' = Some (get_or body ''top_p'' (JFloat 0.9))
     \<and> field p ''stop_sequences'' = Some (get_or body ''stop'' (JList []))
     \<and> field p ''stream'' = Some (get_or body ''stream'' (JBool False))
     \<and> field p ''messages'' = Some (JList pm)
     \<and> field p ''system'' = (if truthy sys then Some sys else None)"
proof -
  from assms obtain kvs where body: "body = JDict kvs"
    by (cases body) (auto simp: build_payload_def ebind_def)
  from assms obtain n where n: "MAX_TOTAL_TOKENS v = Some n"
    by (cases "MAX_TOTAL_TOKENS v") (auto simp: build_payload_def ebind_def split: sum.splits)
  from assms body n show ?thesis
    by (auto simp: build_payload_def ebind_def get_or_def field_def split: sum.splits)
qed

text \<open>
  C8 (as amended). The payload of a successful translation has the caller's \<open>max_tokens\<close>,
  \<open>temperature\<close>, \<open>top_k\<close>, \<open>top_p\<close>, \<open>stop\<close> and \<open>stream\<close> when the request gives them, and
  otherwise the token valve, 0.8, 40, 0.9, the empty list and \<open>False\<close>; it has a
  \<open>system\<close> entry if and only if the extracted system text is truthy, that is, the last
  system message has a non-empty content.
\<close>

theorem payload_defaults:
  assumes "translate v body = Inr p"
  shows "\<exists>n ms sys others.
     MAX_TOTAL_TOKENS v = Some n
     \<and> field p ''max_tokens'' = Some (get_or body ''max_tokens'' (JInt n))
     \<and> field p ''temperature'' = Some (get_or body ''temperature'' (JFloat 0.8))
     \<and> field p ''top_k'' = Some (get_or body ''top_k'' (JInt 40))
     \<and> field p ''top_p'' = Some (get_or body ''top_p'' (JFloat 0.9))
     \<and> field p ''stop_sequences'' = Some (get_or body ''stop'' (JList []))
     \<and> field p ''stream'' = Some (get_or body ''stream'' (JBool False))
     \<and> field body ''messages'' = Some ms
     \<and> extract_system_message ms = Inr (sys, others)
     \<and> (\<forall>msgs. ms = JList msgs \<and> (\<forall>m\<in>set msgs. wf_message m)
           \<longrightarrow> sys = last_system_text msgs)
     \<and> field p ''system'' = (if truthy sys then Some sys else None)"
proof -
  from assms obtain ms sys others pm cnt tot where
    ms: "subscript body ''messages'' = Inr ms"
    and ex: "extract_system_message ms = Inr (sys, others)"
    and bp: "build_payload v body sys pm = Inr p"
    by (auto simp: translate_def ebind_def split: if_splits sum.splits prod.splits)
  from ms have f: "field body ''messages'' = Some ms"
    by (cases body) (auto simp: field_def split: option.splits)
  have "sys = last_system_text msgs" if "ms = JList msgs" "\<forall>m\<in>set msgs. wf_message m" for msgs
    using ex that extract_loop_spec[OF that(2), of JNull "[]"]
    by (simp add: extract_system_message_def ebind_def last_system_text_def)
  with build_payload_fields[OF bp] ex f show ?thesis by blast
qed

lemmas eval_defs =
  translate_def extract_system_message_def process_content_def build_payload_def ebind_def

theorem payload_defaults_witness:
  "\<exists>p. translate example_valves plain_body = Inr p
     \<and> field p ''max_tokens'' = Some (JInt 4000)
     \<and> field p ''temperature'' = Some (JFloat 0.8)
     \<and> field p ''top_k'' = Some (JInt 40)
     \<and> field p ''top_p'' = Some (JFloat 0.9)
     \<and> field p ''stop_sequences'' = Some (JList [])
     \<and> field p ''stream'' = Some (JBool False)
     \<and> field p ''system'' = Some (JStr ''Be brief'')"
proof -
  obtain p where p: "translate example_valves plain_body = Inr p"
    by (simp add: plain_body_def example_defs eval_defs)
  from payload_defaults[OF p] obtain n ms sys others where
    n: "MAX_TOTAL_TOKENS example_valves = Some n"
    and fields: "field p ''max_tokens'' = Some (get_or plain_body ''max_tokens'' (JInt n))"
      "field p ''temperature'' = Some (get_or plain_body ''temperature'' (JFloat 0.8))"
      "field p ''top_k'' = Some (get_or plain_body ''top_k'' (JInt 40))"
      "field p ''top_p'' = Some (get_or plain_body ''top_p'' (JFloat 0.9))"
      "field p ''stop_sequences'' = Some (get_or plain_body ''stop'' (JList []))"
      "field p ''stream'' = Some (get_or plain_body ''stream'' (JBool False))"
    and ms: "field plain_body ''messages'' = Some ms"
    and ex: "extract_system_message ms = Inr (sys, others)"
    and wf: "\<forall>msgs. ms = JList msgs \<and> (\<forall>m\<in>set msgs. wf_message m)
       \<longrightarrow> sys = last_system_text msgs"
    and sys: "field p ''system'' = (if truthy sys then Some sys else None)"
    by blast
  from n have n4000: "n = 4000" by (simp add: example_valves_def default_valves_def)
  from ms have "ms = JList [system_message (JStr ''Be brief''), user_message (JStr ''hi'')]"
    by (simp add: plain_body_def request_body_def field_def)
  moreover have "\<forall>m\<in>set [system_message (JStr ''Be brief''), user_message (JStr ''hi'')].
      wf_message m"
    by (simp add: wf_message_def system_message_def user_message_def)
  ultimately have "sys = last_system_text [system_message (JStr ''Be brief''),
      user_message (JStr ''hi'')]"
    using wf by blast
  then have "sys = JStr ''Be brief''"
    by (simp add: last_system_text_def is_system_def content_of_def system_message_def
        user_message_def)
  with sys have "field p ''system'' = Some (JStr ''Be brief'')" by simp
  moreover have "get_or plain_body k d = d"
    if "k \<noteq> ''model''" "k \<noteq> ''messages''" for k d
    using that by (simp add: get_or_def field_def plain_body_def request_body_def)
  ultimately show ?thesis using p fields n4000 by simp
qed

text \<open>
  A request with a system message whose content is the empty string: the payload has no
  \<open>system\<close> entry.
\<close>

theorem empty_system_counterexample:
  "list_ex is_system (messages_of empty_system_body)
   \<and> translate example_valves empty_system_body = Inr empty_system_payload
   \<and> field empty_system_payload ''system'' = None"
  by (simp add: empty_system_body_def empty_system_payload_def example_defs eval_defs
      messages_of_def field_def is_system_def vendor_model_id_def slice_from_def Let_def)

section \<open>Image sizes\<close>

lemma py_iter_not_ValueError: "py_iter j \<noteq> Inl (ValueError m)"
  by (cases j) auto

lemma extract_loop_not_ValueError: "extract_loop ms s os \<noteq> Inl (ValueError m)"
  by (induction ms s os rule: extract_loop.induct)
     (auto simp: subscript_not_ValueError split: sum.splits)

lemma extract_not_ValueError: "extract_system_message j \<noteq> Inl (ValueError m)"
  by (auto simp: extract_system_message_def ebind_def py_iter_not_ValueError
      extract_loop_not_ValueError split: sum.splits)

lemma strip_model_not_ValueError: "strip_model j \<noteq> Inl (ValueError m)"
  by (cases j) auto

lemma build_payload_not_ValueError: "build_payload v body s pm \<noteq> Inl (ValueError m)"
  by (auto simp: build_payload_def ebind_def subscript_not_ValueError py_get_not_ValueError
      strip_model_not_ValueError split: sum.splits option.splits)

lemma translate_not_total: "translate v body \<noteq> Inl total_size_error"
proof -
  have "process_messages ms ([], 0, 0) \<noteq> Inl total_size_error" for ms
    by (rule process_messages_accounted[OF accounted_start])
  then show ?thesis
    using extract_not_ValueError subscript_not_ValueError build_payload_not_ValueError
    by (auto simp: translate_def ebind_def total_size_error_def split: sum.splits)
qed

lemma data_url_facts:
  "startswith (data_url d) ''data:image''" "CHR '','' \<in> set (data_url d)"
  "after_comma (data_url d) = d"
  by (simp_all add: data_url_def startswith_def after_comma_def)

lemma url_of_data_image: "url_of (data_image d) = data_url d"
  by (simp add: url_of_def data_image_def image_item_def image_url_of_def ebind_def)

lemma size_of_data_url: "size_of_url (data_url d) = estimate d"
  by (simp add: size_of_url_def data_url_facts)

lemma wf_part_data_image: "wf_part (data_image d)"
proof -
  have "image_url_of (data_image d) = Inr (JStr (data_url d))"
    by (simp add: data_image_def image_item_def image_url_of_def ebind_def)
  moreover have "field (data_image d) ''type'' = Some (JStr ''image_url'')"
    by (simp add: field_def data_image_def image_item_def)
  ultimately show ?thesis
    by (simp add: wf_part_def url_of_data_image wf_url_def data_url_facts)
qed

lemma is_image_part_data_image: "is_image_part (data_image d)"
  by (simp add: is_image_part_def field_def data_image_def image_item_def)

lemma within_limit_data_image: "within_limit (data_image d) = (estimate d \<le> per_image_limit)"
  by (simp add: within_limit_def url_of_data_image size_of_data_url)

lemma estimate_big: "estimate big_data = 20250000"
  by (simp add: estimate_def big_data_def)

lemma estimate_huge: "estimate huge_data = 21000000"
  by (simp add: estimate_def huge_data_def)

text \<open>
  C3 (as amended). The size of a base64 image is estimated as the length of its base64
  text times 3/4; the bound of one image is 100 MiB / 5; a base64 image over the bound
  gives the size error, and \<open>pipe\<close> returns that error, with no HTTP request, when
  one of the first five counted images is over the bound; an image of the url kind adds
  zero. The total-size error is never the result of a translation: five images within
  the bound never exceed 100 MiB.
\<close>

theorem image_size_accounting:
  "estimate d = real (length d) * 3 / 4
   \<and> per_image_limit = real (100 * 1024 * 1024) / 5
   \<and> image_size_of (base64_part mt d) =
       (if estimate d > per_image_limit then Inl image_size_error else Inr (estimate d))
   \<and> image_size_of (url_part u) = Inr 0
   \<and> translate v body \<noteq> Inl total_size_error
   \<and> (wf_request v body \<and> \<not> list_all within_limit (take 5 (counted_images body)) \<longrightarrow>
        anthropic_pipe v post body = (ReturnsError ''Error: '' image_size_error, []))"
proof -
  have "anthropic_pipe v post body = (ReturnsError ''Error: '' image_size_error, [])"
    if wf: "wf_request v body" and big: "\<not> list_all within_limit (take 5 (counted_images body))"
  proof -
    from translate_verdict[OF wf] big have "translate v body = Inl image_size_error"
      by (simp add: verdict_def)
    from pipe_translate_fails[OF this, of post] show ?thesis
      by (simp add: image_size_error_def handler_ValueError)
  qed
  then show ?thesis
    by (simp add: estimate_def limits image_size_of_base64 image_size_of_url translate_not_total)
qed

theorem image_size_accounting_witness:
  "anthropic_pipe example_valves ok_transport huge_image_body
     = (ReturnsError ''Error: '' image_size_error, [])
   \<and> estimate huge_data = 21000000 \<and> per_image_limit = 20971520"
proof -
  have wf: "wf_request example_valves huge_image_body"
    by (simp add: huge_image_body_def request_body_def user_message_def example_valves_def
        default_valves_def wf_request_def key_set_def field_def wf_chat_message_def
        wf_message_def parts_of_def wf_part_data_image)
  have c: "counted_images huge_image_body = [data_image huge_data]"
    by (simp add: huge_image_body_def request_body_def user_message_def count_defs
        is_image_part_data_image[unfolded is_image_part_def field_def])
  have nl: "\<not> within_limit (data_image huge_data)"
    by (simp add: within_limit_data_image estimate_huge limits)
  from image_size_accounting[of huge_data "''image/png''" "[]" example_valves huge_image_body ok_transport]
    wf c nl estimate_huge
  show ?thesis by (simp add: limits)
qed

text \<open>
  Six base64 images, each within the bound of one image, with estimates that sum to more
  than 100 MiB: the translation fails with the image-limit error, not the total-size
  error.
\<close>

theorem total_over_limit_counterexample:
  "estimate big_data \<le> per_image_limit
   \<and> 6 * estimate big_data > real MAX_TOTAL_IMAGE_SIZE
   \<and> length (counted_images six_big_images_body) = 6
   \<and> translate example_valves six_big_images_body = Inl image_limit_error"
proof -
  have wf: "wf_request example_valves six_big_images_body"
    by (simp add: six_big_images_body_def request_body_def user_message_def example_valves_def
        default_valves_def wf_request_def key_set_def field_def wf_chat_message_def
        wf_message_def parts_of_def wf_part_data_image)
  have c: "counted_images six_big_images_body
      = [data_image big_data, data_image big_data, data_image big_data,
         data_image big_data, data_image big_data, data_image big_data]"
    by (simp add: six_big_images_body_def request_body_def user_message_def count_defs
        is_image_part_data_image[unfolded is_image_part_def field_def])
  have wl: "within_limit (data_image big_data)"
    by (simp add: within_limit_data_image estimate_big limits)
  from translate_verdict[OF wf] c wl
  have "translate example_valves six_big_images_body = Inl image_limit_error"
    by (simp add: verdict_def)
  with c show ?thesis by (simp add: estimate_big limits)
qed

section \<open>Errors of a buffered call\<close>

lemma anthropic_pipe_cases:
  "anthropic_pipe v post body =
     (case translate v body of
        Inl e \<Rightarrow> (handler e, [])
      | Inr p \<Rightarrow>
          if stream_requested body then (ReturnsGenerator (anthropic_request v p True), [])
          else (case non_stream_response post (anthropic_request v p False) of
                  Inl e \<Rightarrow> (handler e, [anthropic_request v p False])
                | Inr r \<Rightarrow> (Returns r, [anthropic_request v p False])))"
proof (cases "translate v body")
  case (Inl e)
  then show ?thesis by (simp add: anthropic_pipe_def)
next
  case (Inr p)
  then obtain ms where "subscript body ''messages'' = Inr ms"
    by (auto simp: translate_def ebind_def split: if_splits sum.splits)
  then obtain kvs where "body = JDict kvs" by (cases body) auto
  then obtain s where s: "py_get body ''stream'' (JBool False) = Inr s" by simp
  show ?thesis
  proof (cases "truthy s")
    case True
    with Inr s show ?thesis
      by (simp add: anthropic_pipe_def stream_requested_def anthropic_request_def)
  next
    case False
    with Inr s show ?thesis
      by (simp add: anthropic_pipe_def stream_requested_def anthropic_request_def Let_def
          cong: sum.case_cong)
  qed
qed

lemma translate_no_key: "\<not> key_set v \<Longrightarrow> translate v body = Inl missing_key_error"
  by (auto simp: translate_def key_set_def missing_key_error_def split: option.splits)

text \<open>
  C6 (as amended). The \<open>pipe\<close> of the Anthropic module never raises: a missing key, a
  failed translation, a failed connection and a status other than 200 all give an error
  string, and a request that does not ask for streaming never gives a generator. The
  \<open>pipe\<close> of the OpenAI module, when the key is set and the model of the request is a
  string, does not raise either: a failed connection and an error status give an error
  string.
\<close>

theorem buffered_errors_returned:
  "(\<forall>e. fst (anthropic_pipe v post body) \<noteq> Raises e)
   \<and> (\<not> stream_requested body \<longrightarrow> (\<forall>g. fst (anthropic_pipe v post body) \<noteq> ReturnsGenerator g))
   \<and> (\<not> key_set v \<longrightarrow>
        anthropic_pipe v post body = (ReturnsError ''Error: '' missing_key_error, []))
   \<and> (\<forall>e. translate v body = Inl e \<longrightarrow>
        (\<exists>s. anthropic_pipe v post body = (ReturnsError s e, [])))
   \<and> (\<forall>p. translate v body = Inr p \<and> \<not> stream_requested body \<longrightarrow>
        (\<forall>msg. post (anthropic_request v p False) = ConnectionFailed msg \<longrightarrow>
           fst (anthropic_pipe v post body) = ReturnsError ''Error: '' (RequestException msg))
        \<and> (\<forall>r. post (anthropic_request v p False) = Responded r \<and> status_code r \<noteq> 200 \<longrightarrow>
           fst (anthropic_pipe v post body)
             = ReturnsError ''Unexpected error: '' (HTTPErrorException (status_code r) (resp_text r))))
   \<and> (\<forall>p. OPENAI_API_KEY ov \<noteq> [] \<and> openai_payload body = Inr p \<longrightarrow>
        (\<forall>e. fst (openai_pipe ov post body) \<noteq> Raises e)
        \<and> (\<forall>msg. post (openai_request ov p) = ConnectionFailed msg \<longrightarrow>
             fst (openai_pipe ov post body) = ReturnsError ''Error: '' (RequestException msg))
        \<and> (\<forall>r. post (openai_request ov p) = Responded r
                \<and> 400 \<le> status_code r \<and> status_code r < 600 \<longrightarrow>
             fst (openai_pipe ov post body) = ReturnsError ''Error: '' (HTTPError (status_code r))))"
proof (intro conjI allI impI)
  fix e show "fst (anthropic_pipe v post body) \<noteq> Raises e"
    by (auto simp: anthropic_pipe_cases handler_def split: sum.splits)
next
  fix g assume "\<not> stream_requested body"
  then show "fst (anthropic_pipe v post body) \<noteq> ReturnsGenerator g"
    by (auto simp: anthropic_pipe_cases handler_def split: sum.splits)
next
  assume "\<not> key_set v"
  from translate_no_key[OF this, of body]
  show "anthropic_pipe v post body = (ReturnsError ''Error: '' missing_key_error, [])"
    by (simp add: anthropic_pipe_cases handler_def missing_key_error_def)
next
  fix e assume "translate v body = Inl e"
  then show "\<exists>s. anthropic_pipe v post body = (ReturnsError s e, [])"
    using handler_returns[of e] by (auto simp: anthropic_pipe_cases)
next
  fix p msg
  assume "translate v body = Inr p \<and> \<not> stream_requested body"
    and "post (anthropic_request v p False) = ConnectionFailed msg"
  then show "fst (anthropic_pipe v post body) = ReturnsError ''Error: '' (RequestException msg)"
    by (simp add: anthropic_pipe_cases non_stream_response_def handler_def)
next
  fix p r
  assume "translate v body = Inr p \<and> \<not> stream_requested body"
    and "post (anthropic_request v p False) = Responded r \<and> status_code r \<noteq> 200"
  then show "fst (anthropic_pipe v post body)
      = ReturnsError ''Unexpected error: '' (HTTPErrorException (status_code r) (resp_text r))"
    by (simp add: anthropic_pipe_cases non_stream_response_def handler_def)
next
  fix p e
  assume a: "OPENAI_API_KEY ov \<noteq> [] \<and> openai_payload body = Inr p"
  then obtain kvs where "body = JDict kvs"
    by (cases body) (auto simp: openai_payload_def ebind_def)
  with a show "fst (openai_pipe ov post body) \<noteq> Raises e"
    by (auto simp: openai_pipe_def Let_def split: post_result.splits option.splits)
next
  fix p msg
  assume "OPENAI_API_KEY ov \<noteq> [] \<and> openai_payload body = Inr p"
    and "post (openai_request ov p) = ConnectionFailed msg"
  then show "fst (openai_pipe ov post body) = ReturnsError ''Error: '' (RequestException msg)"
    by (simp add: openai_pipe_def openai_request_def Let_def)
next
  fix p r
  assume "OPENAI_API_KEY ov \<noteq> [] \<and> openai_payload body = Inr p"
    and "post (openai_request ov p) = Responded r \<and> 400 \<le> status_code r \<and> status_code r < 600"
  then show "fst (openai_pipe ov post body) = ReturnsError ''Error: '' (HTTPError (status_code r))"
    by (simp add: openai_pipe_def openai_request_def Let_def)
qed

text \<open>
  Without a key the \<open>pipe\<close> of the OpenAI module raises: the check stands before the
  \<open>try\<close> block.
\<close>

theorem openai_missing_key_counterexample:
  "\<not> stream_requested plain_body
   \<and> openai_pipe no_key_valves refusing_transport plain_body
       = (Raises (PlainException ''OPENAI_API_KEY not provided by the user.''), [])"
  by (simp add: openai_pipe_def no_key_valves_def stream_requested_def plain_body_def
      request_body_def)

theorem buffered_errors_returned_witness:
  "anthropic_pipe (default_valves None) refusing_transport plain_body
     = (ReturnsError ''Error: '' missing_key_error, [])
   \<and> fst (anthropic_pipe example_valves refusing_transport plain_body)
       = ReturnsError ''Error: '' (RequestException ''connection refused'')
   \<and> fst (anthropic_pipe example_valves failing_transport plain_body)
       = ReturnsError ''Unexpected error: '' (HTTPErrorException 500 ''overloaded'')
   \<and> (\<exists>s. anthropic_pipe example_valves ok_transport six_images_body
          = (ReturnsError s image_limit_error, []))
   \<and> fst (openai_pipe key_valves refusing_transport plain_body)
       = ReturnsError ''Error: '' (RequestException ''connection refused'')
   \<and> fst (openai_pipe key_valves failing_transport plain_body)
       = ReturnsError ''Error: '' (HTTPError 500)"
proof -
  have nokey: "\<not> key_set (default_valves None)"
    by (simp add: key_set_def default_valves_def)
  obtain p where p: "translate example_valves plain_body = Inr p"
    by (simp add: plain_body_def example_defs eval_defs)
  obtain q where q: "openai_payload plain_body = Inr q"
    by (simp add: openai_payload_def ebind_def plain_body_def request_body_def)
  have buffered: "\<not> stream_requested plain_body"
    by (simp add: stream_requested_def plain_body_def request_body_def)
  have key: "OPENAI_API_KEY key_valves \<noteq> []"
    by (simp add: key_valves_def no_key_valves_def)
  have refused: "refusing_transport r = ConnectionFailed ''connection refused''" for r
    by (simp add: refusing_transport_def)
  have failed: "failing_transport r = Responded error_response"
    "status_code error_response = 500" "resp_text error_response = ''overloaded''" for r
    by (simp_all add: failing_transport_def error_response_def)
  have wf6: "wf_request example_valves six_images_body"
    by (simp add: six_images_body_def example_defs wf_defs)
  have c6: "counted_images six_images_body
      = [url_image, url_image, url_image, url_image, url_image, url_image]"
    by (simp add: six_images_body_def example_defs count_defs)
  from translate_verdict[OF wf6] c6 within_limit_url_image
  have six: "translate example_valves six_images_body = Inl image_limit_error"
    by (simp add: verdict_def)
  note a = buffered_errors_returned
    [where v = "default_valves None" and post = refusing_transport and body = plain_body
       and ov = key_valves]
  note b = buffered_errors_returned
    [where v = example_valves and post = refusing_transport and body = plain_body
       and ov = key_valves]
  note c = buffered_errors_returned
    [where v = example_valves and post = failing_transport and body = plain_body
       and ov = key_valves]
  note d = buffered_errors_returned
    [where v = example_valves and post = ok_transport and body = six_images_body
       and ov = key_valves]
  from a nokey have 1: "anthropic_pipe (default_valves None) refusing_transport plain_body
     = (ReturnsError ''Error: '' missing_key_error, [])"
    by blast
  from b p buffered refused have 2: "fst (anthropic_pipe example_valves refusing_transport plain_body)
       = ReturnsError ''Error: '' (RequestException ''connection refused'')"
    by blast
  from c p buffered failed(1)[of "anthropic_request example_valves p False"]
  have "fst (anthropic_pipe example_valves failing_transport plain_body)
       = ReturnsError ''Unexpected error: ''
           (HTTPErrorException (status_code error_response) (resp_text error_response))"
    by (simp add: failed(2))
  then have 3: "fst (anthropic_pipe example_valves failing_transport plain_body)
       = ReturnsError ''Unexpected error: '' (HTTPErrorException 500 ''overloaded'')"
    by (simp add: failed)
  from d six have 4: "\<exists>s. anthropic_pipe example_valves ok_transport six_images_body
          = (ReturnsError s image_limit_error, [])"
    by blast
  from b q key refused have 5: "fst (openai_pipe key_valves refusing_transport plain_body)
       = ReturnsError ''Error: '' (RequestException ''connection refused'')"
    by blast
  from c q key failed(1)[of "openai_request key_valves q"]
  have "fst (openai_pipe key_valves failing_transport plain_body)
       = ReturnsError ''Error: '' (HTTPError (status_code error_response))"
    by (simp add: failed(2))
  then have 6: "fst (openai_pipe key_valves failing_transport plain_body)
       = ReturnsError ''Error: '' (HTTPError 500)"
    by (simp add: failed)
  from 1 2 3 4 5 6 show ?thesis by blast
qed

end
